theory Spec2Isabelle
  imports Complex_Main "HOL-Library.Word" "HOL-Library.AList"
begin

section \<open>Values of the host language\<close>

text \<open>
  A JavaScript string is a sequence of UTF-16 code units. \<open>String.prototype.trim\<close>
  removes the code units of the productions WhiteSpace and LineTerminator from both ends.
\<close>

type_synonym js_string = "16 word list"

definition ascii :: "string \<Rightarrow> js_string" where
  "ascii cs = map (\<lambda>c. of_nat (of_char c)) cs"

definition is_white_space :: "16 word \<Rightarrow> bool" where
  "is_white_space c =
     (c = 0x9 \<or> c = 0xA \<or> c = 0xB \<or> c = 0xC \<or> c = 0xD \<or> c = 0x20 \<or> c = 0xA0
      \<or> c = 0x1680 \<or> (0x2000 \<le> c \<and> c \<le> 0x200A) \<or> c = 0x2028 \<or> c = 0x2029
      \<or> c = 0x202F \<or> c = 0x205F \<or> c = 0x3000 \<or> c = 0xFEFF)"

definition trim :: "js_string \<Rightarrow> js_string" where
  "trim s = rev (dropWhile is_white_space (rev (dropWhile is_white_space s)))"

text \<open>
  A JavaScript number is NaN, one of the two infinities, or a finite value. The scheduler
  only tests numbers for truthiness and compares them, so a finite value is kept as the
  real number it denotes (both zeros are \<open>Finite 0\<close>); every double is one of these
  values.
\<close>

datatype js_number = NaN | PosInfinity | NegInfinity | Finite real

text \<open>\<open>!x\<close> on a number: true for NaN and for zero.\<close>

fun falsy :: "js_number \<Rightarrow> bool" where
  "falsy NaN = True"
| "falsy (Finite r) = (r = 0)"
| "falsy PosInfinity = False"
| "falsy NegInfinity = False"

text \<open>\<open>a <= b\<close> on numbers: false as soon as one side is NaN.\<close>

fun js_le :: "js_number \<Rightarrow> js_number \<Rightarrow> bool" where
  "js_le NaN b = False"
| "js_le a NaN = False"
| "js_le NegInfinity b = True"
| "js_le a PosInfinity = True"
| "js_le PosInfinity b = False"
| "js_le a NegInfinity = False"
| "js_le (Finite x) (Finite y) = (x \<le> y)"

text \<open>\<open>a >= b\<close> holds exactly when \<open>b <= a\<close> does; both are false with a NaN.\<close>

definition js_ge :: "js_number \<Rightarrow> js_number \<Rightarrow> bool" where
  "js_ge a b = js_le b a"

section \<open>The types of \<open>scheduler.ts\<close>\<close>

datatype IntervalUnit = Second | Minute | Hour | Day | Week

text \<open>The parameter \<open>interval: IntervalUnit | number\<close>.\<close>

datatype interval_arg = Unit IntervalUnit | Millis js_number

text \<open>
  How one call of a \<open>TaskFunction\<close> ends: it returns a non-promise, throws, or returns a
  promise that is later fulfilled or rejected. A task function acts on the world outside
  the scheduler, of type \<open>'w\<close>: it reads the world and leaves the new one, all at the
  call. It does not call the scheduler that runs it.
\<close>

datatype completion = Returned | Threw string | Resolved | Rejected string

type_synonym 'w TaskFunction = "'w \<Rightarrow> completion \<times> 'w"

text \<open>
  The argument \<open>func\<close> as it arrives at run time: \<open>typeof func\<close> is \<open>'function'\<close> or
  something else.
\<close>

datatype 'w func_arg = Function "'w TaskFunction" | NotAFunction

record ScheduleOptions =
  runImmediately :: "bool option"
  optMaxExecutions :: "js_number option"

record TaskInfo =
  name :: js_string
  infoInterval :: js_number
  infoStartTime :: int
  infoExecutionCount :: nat
  isActive :: bool

text \<open>
  The value type of the private map \<open>tasks\<close>. \<open>executionCount\<close> starts at 0 and only
  grows by 1, so it is a natural number (exact in a double up to \<open>2^53\<close>).
\<close>

record 'w task =
  timerId :: nat
  func :: "'w TaskFunction"
  interval :: js_number
  startTime :: int
  executionCount :: nat
  maxExecutions :: "js_number option"

text \<open>
  The three \<open>Error\<close>s that \<open>schedule\<close> throws, told apart by their messages:
  \<open>'Task name is required'\<close>, \<open>'Function is required'\<close> and \<open>`Invalid interval: ${interval}`\<close>.
  What an action throws, or rejects with, is a \<open>string\<close>.
\<close>

datatype error =
    TaskNameRequired
  | FunctionRequired
  | InvalidInterval interval_arg

datatype log_line =
    Scheduled js_string js_number
  | Stopped js_string
  | Destroyed

text \<open>The calls that leave the scheduler, in the order they are made.\<close>

datatype event =
    Invoked completion
  | SetInterval nat js_string js_number
  | ClearInterval nat
  | ConsoleLog log_line
  | ConsoleError string

text \<open>
  The state: the map \<open>tasks\<close> in insertion order (a JavaScript \<open>Map\<close>), the interval
  timers of the host that are armed (handle, the \<open>taskName\<close> its callback closes over,
  delay), the next handle the host gives out, the trace of outside calls, and the world.
\<close>

record 'w scheduler =
  tasks :: "(js_string \<times> 'w task) list"
  timers :: "(nat \<times> js_string \<times> js_number) list"
  nextTimer :: nat
  trace :: "event list"
  world :: 'w

definition new_Scheduler :: "'w \<Rightarrow> 'w scheduler" where
  "new_Scheduler w = \<lparr>tasks = [], timers = [], nextTimer = 0, trace = [], world = w\<rparr>"

section \<open>The operations\<close>

text \<open>The table \<open>intervals\<close>, with the products as the source writes them.\<close>

fun intervals :: "IntervalUnit \<Rightarrow> js_number" where
  "intervals Second = Finite 1000"
| "intervals Minute = Finite (60 * 1000)"
| "intervals Hour = Finite (60 * 60 * 1000)"
| "intervals Day = Finite (24 * 60 * 60 * 1000)"
| "intervals Week = Finite (7 * 24 * 60 * 60 * 1000)"

text \<open>\<open>typeof interval === 'string' ? this.intervals[interval] : interval\<close>\<close>

fun intervalMs :: "interval_arg \<Rightarrow> js_number" where
  "intervalMs (Unit u) = intervals u"
| "intervalMs (Millis x) = x"

text \<open>
  How far \<open>executeTask\<close> has come when it first gives up control: it is done, or it is
  waiting at \<open>await result\<close> for a promise that will be fulfilled (\<open>None\<close>) or rejected.
\<close>

datatype suspension = Done | Awaiting "string option"

text \<open>
  \<open>executeTask\<close> up to that point: \<open>func\<close> is called inside \<open>try\<close>; a throw of the call
  goes to the \<open>catch\<close> at once; a promise is awaited.
\<close>

definition executeTask_begin ::
  "'w TaskFunction \<Rightarrow> 'w scheduler \<Rightarrow> suspension \<times> 'w scheduler" where
  "executeTask_begin f s =
     (case f (world s) of (c, w) \<Rightarrow>
        let s1 = s\<lparr>trace := trace s @ [Invoked c], world := w\<rparr>
        in (case c of
              Returned \<Rightarrow> (Done, s1)
            | Threw e \<Rightarrow> (Done, s1\<lparr>trace := trace s1 @ [ConsoleError e]\<rparr>)
            | Resolved \<Rightarrow> (Awaiting None, s1)
            | Rejected e \<Rightarrow> (Awaiting (Some e), s1)))"

text \<open>
  \<open>executeTask\<close> from there on: a rejection of the awaited promise goes to the \<open>catch\<close>.
  The first component is the error with which the promise of \<open>executeTask\<close> itself
  rejects, if it does.
\<close>

definition executeTask_resume ::
  "suspension \<Rightarrow> 'w scheduler \<Rightarrow> string option \<times> 'w scheduler" where
  "executeTask_resume p s =
     (case p of
        Done \<Rightarrow> (None, s)
      | Awaiting None \<Rightarrow> (None, s)
      | Awaiting (Some e) \<Rightarrow> (None, s\<lparr>trace := trace s @ [ConsoleError e]\<rparr>))"

text \<open>\<open>await this.executeTask(func)\<close>: the caller goes on when \<open>executeTask\<close> has ended.\<close>

definition executeTask ::
  "'w TaskFunction \<Rightarrow> 'w scheduler \<Rightarrow> string option \<times> 'w scheduler" where
  "executeTask f s = (case executeTask_begin f s of (p, s1) \<Rightarrow> executeTask_resume p s1)"

definition stop :: "js_string \<Rightarrow> 'w scheduler \<Rightarrow> bool \<times> 'w scheduler" where
  "stop taskName s =
     (case map_of (tasks s) taskName of
        None \<Rightarrow> (False, s)
      | Some task \<Rightarrow>
          (True, s\<lparr>tasks := AList.delete taskName (tasks s),
                   timers := AList.delete (timerId task) (timers s),
                   trace := trace s @ [ClearInterval (timerId task), ConsoleLog (Stopped taskName)]\<rparr>))"

text \<open>\<open>task.maxExecutions && task.executionCount >= task.maxExecutions\<close>\<close>

definition cap_reached :: "'w task \<Rightarrow> bool" where
  "cap_reached task =
     (case maxExecutions task of
        None \<Rightarrow> False
      | Some m \<Rightarrow> \<not> falsy m \<and> js_ge (Finite (real (executionCount task))) m)"

text \<open>\<open>task.executionCount++\<close> on the entry stored under \<open>taskName\<close>.\<close>

definition increment :: "js_string \<Rightarrow> 'w scheduler \<Rightarrow> 'w scheduler" where
  "increment taskName s =
     s\<lparr>tasks := AList.map_entry taskName
                   (\<lambda>task. task\<lparr>executionCount := Suc (executionCount task)\<rparr>) (tasks s)\<rparr>"

text \<open>
  The callback given to \<open>setInterval\<close> by \<open>schedule\<close>, closed over \<open>taskName\<close>. The first
  component is the error with which the callback's promise rejects, if it does. \<open>task\<close> is
  the object found in the map; after the increment it is \<open>task'\<close>, and the map holds it
  under \<open>taskName\<close>.
\<close>

definition tick :: "js_string \<Rightarrow> 'w scheduler \<Rightarrow> string option \<times> 'w scheduler" where
  "tick taskName s =
     (case map_of (tasks s) taskName of
        None \<Rightarrow> (None, s)
      | Some task \<Rightarrow>
          (case executeTask (func task) s of
             (Some e, s1) \<Rightarrow> (Some e, s1)
           | (None, s1) \<Rightarrow>
               let s2 = increment taskName s1;
                   task' = task\<lparr>executionCount := Suc (executionCount task)\<rparr>
               in if cap_reached task' then (None, snd (stop taskName s2)) else (None, s2)))"

text \<open>
  The host fires the timer with handle \<open>tid\<close>: it runs the callback of an armed timer, and
  does nothing for a handle that is not armed.
\<close>

definition fire :: "nat \<Rightarrow> 'w scheduler \<Rightarrow> string option \<times> 'w scheduler" where
  "fire tid s =
     (case map_of (timers s) tid of
        None \<Rightarrow> (None, s)
      | Some (taskName, d) \<Rightarrow> tick taskName s)"

text \<open>\<open>setInterval(callback, delay)\<close>: the host arms a timer under a fresh handle.\<close>

definition setInterval :: "js_string \<Rightarrow> js_number \<Rightarrow> 'w scheduler \<Rightarrow> nat \<times> 'w scheduler" where
  "setInterval taskName d s =
     (nextTimer s,
      s\<lparr>timers := timers s @ [(nextTimer s, taskName, d)],
        nextTimer := Suc (nextTimer s),
        trace := trace s @ [SetInterval (nextTimer s) taskName d]\<rparr>)"

text \<open>
  \<open>schedule\<close>. \<open>taskName\<close> is \<open>None\<close> for \<open>null\<close> and \<open>undefined\<close>, which \<open>taskName?.trim()\<close>
  lets through to the test; \<open>now\<close> is the value of \<open>new Date()\<close>. The call
  \<open>this.executeTask(func)\<close> is not awaited: \<open>schedule\<close> goes on as soon as \<open>executeTask\<close>
  gives up control, and the rest of \<open>executeTask\<close> runs when \<open>schedule\<close> has returned; its
  promise is dropped.
\<close>

definition schedule ::
  "js_string option \<Rightarrow> 'w func_arg \<Rightarrow> interval_arg \<Rightarrow> ScheduleOptions \<Rightarrow> int \<Rightarrow> 'w scheduler
   \<Rightarrow> (error + unit) \<times> 'w scheduler" where
  "schedule taskName f ival options now s =
     (case taskName of
        None \<Rightarrow> (Inl TaskNameRequired, s)
      | Some n \<Rightarrow>
          if trim n = [] then (Inl TaskNameRequired, s)
          else (case f of
                  NotAFunction \<Rightarrow> (Inl FunctionRequired, s)
                | Function g \<Rightarrow>
                    if falsy (intervalMs ival) \<or> js_le (intervalMs ival) (Finite 0)
                    then (Inl (InvalidInterval ival), s)
                    else
                      let s1 = snd (stop n s);
                          (p, s2) = (if runImmediately options = Some True
                                     then executeTask_begin g s1 else (Done, s1));
                          (tid, s3) = setInterval n (intervalMs ival) s2;
                          s4 = s3\<lparr>tasks := AList.update n
                                 \<lparr>timerId = tid, func = g, interval = intervalMs ival,
                                  startTime = now, executionCount = 0,
                                  maxExecutions = optMaxExecutions options\<rparr> (tasks s3)\<rparr>;
                          s5 = s4\<lparr>trace := trace s4 @
                                      [ConsoleLog (Scheduled n (intervalMs ival))]\<rparr>
                      in (Inr (), snd (executeTask_resume p s5))))"

definition executeNow :: "js_string \<Rightarrow> 'w scheduler \<Rightarrow> (string + bool) \<times> 'w scheduler" where
  "executeNow taskName s =
     (case map_of (tasks s) taskName of
        None \<Rightarrow> (Inr False, s)
      | Some task \<Rightarrow>
          (case executeTask (func task) s of
             (Some e, s1) \<Rightarrow> (Inl e, s1)
           | (None, s1) \<Rightarrow> (Inr True, increment taskName s1)))"

text \<open>
  \<open>stopAll\<close>. The iterator of \<open>this.tasks.keys()\<close> is live, and each step deletes the key
  it has just produced, so it produces the keys present at the start, in order.
\<close>

definition stopAll :: "'w scheduler \<Rightarrow> nat \<times> 'w scheduler" where
  "stopAll s =
     (length (tasks s), foldl (\<lambda>s' taskName. snd (stop taskName s')) s (map fst (tasks s)))"

definition getTask :: "js_string \<Rightarrow> 'w scheduler \<Rightarrow> TaskInfo option" where
  "getTask taskName s =
     (case map_of (tasks s) taskName of
        None \<Rightarrow> None
      | Some task \<Rightarrow>
          Some \<lparr>name = taskName, infoInterval = interval task, infoStartTime = startTime task,
                infoExecutionCount = executionCount task, isActive = True\<rparr>)"

definition getActiveTasks :: "'w scheduler \<Rightarrow> js_string list" where
  "getActiveTasks s = map fst (tasks s)"

definition getAllTasks :: "'w scheduler \<Rightarrow> (js_string \<times> TaskInfo) list" where
  "getAllTasks s =
     foldl (\<lambda>result taskName.
              case getTask taskName s of
                None \<Rightarrow> result
              | Some taskInfo \<Rightarrow> AList.update taskName taskInfo result)
       [] (map fst (tasks s))"

definition hasTask :: "js_string \<Rightarrow> 'w scheduler \<Rightarrow> bool" where
  "hasTask taskName s = (map_of (tasks s) taskName \<noteq> None)"

definition taskCount :: "'w scheduler \<Rightarrow> nat" where
  "taskCount s = length (tasks s)"

definition destroy :: "'w scheduler \<Rightarrow> 'w scheduler" where
  "destroy s = (let s1 = snd (stopAll s) in s1\<lparr>trace := trace s1 @ [ConsoleLog Destroyed]\<rparr>)"

section \<open>Callers and the timer driver\<close>

text \<open>
  What can happen to a scheduler: a call of one of its public methods, or the host firing
  the timer with some handle. Each step runs to its end, with the promises it awaits,
  before the next one starts; what a method throws or returns is dropped here.
\<close>

datatype 'w operation =
    Schedule "js_string option" "'w func_arg" interval_arg ScheduleOptions int
  | Stop js_string
  | ExecuteNow js_string
  | StopAll
  | Destroy
  | Fire nat

fun perform :: "'w operation \<Rightarrow> 'w scheduler \<Rightarrow> 'w scheduler" where
  "perform (Schedule taskName f ival options now) s = snd (schedule taskName f ival options now s)"
| "perform (Stop taskName) s = snd (stop taskName s)"
| "perform (ExecuteNow taskName) s = snd (executeNow taskName s)"
| "perform StopAll s = snd (stopAll s)"
| "perform Destroy s = destroy s"
| "perform (Fire tid) s = snd (fire tid s)"

fun run :: "'w operation list \<Rightarrow> 'w scheduler \<Rightarrow> 'w scheduler" where
  "run [] s = s"
| "run (x # xs) s = run xs (perform x s)"

text \<open>
  The states a scheduler can be in: names and handles are unique, every armed timer has a
  handle the host has already given out and belongs to the entry stored under the name
  its callback closes over, and every entry's timer is armed with the entry's interval.
\<close>

definition well_formed :: "'w scheduler \<Rightarrow> bool" where
  "well_formed s =
     (distinct (map fst (tasks s)) \<and> distinct (map fst (timers s))
      \<and> list_all (\<lambda>(tid, taskName, d).
            tid < nextTimer s
            \<and> (case map_of (tasks s) taskName of None \<Rightarrow> False | Some task \<Rightarrow> timerId task = tid))
          (timers s)
      \<and> list_all (\<lambda>(taskName, task).
            map_of (timers s) (timerId task) = Some (taskName, interval task))
          (tasks s))"

definition is_Invoked :: "event \<Rightarrow> bool" where
  "is_Invoked e = (case e of Invoked c \<Rightarrow> True | _ \<Rightarrow> False)"

text \<open>The number of times an action has been called so far.\<close>

definition invocations :: "'w scheduler \<Rightarrow> nat" where
  "invocations s = length (filter is_Invoked (trace s))"

text \<open>
  The wording of the specification for an acceptable resolved interval, "a positive finite
  number", kept apart from the test that \<open>schedule\<close> makes.
\<close>

definition spec_positive_finite :: "js_number \<Rightarrow> bool" where
  "spec_positive_finite x = (case x of Finite r \<Rightarrow> 0 < r | _ \<Rightarrow> False)"

section \<open>Auxiliary notions\<close>

text \<open>
  \<open>accepted\<close> collects the three tests of \<open>schedule\<close>; \<open>immediate\<close> is its optional
  first run; \<open>stop_each\<close> is the loop of \<open>stopAll\<close>; a handle is \<open>retired\<close> when the host
  has given it out and its timer is no longer armed.
\<close>

definition accepted :: "js_string option \<Rightarrow> 'w func_arg \<Rightarrow> interval_arg \<Rightarrow> bool" where
  "accepted taskName f ival =
     ((case taskName of None \<Rightarrow> False | Some n \<Rightarrow> trim n \<noteq> [])
      \<and> (case f of NotAFunction \<Rightarrow> False | Function g \<Rightarrow> True)
      \<and> \<not> falsy (intervalMs ival) \<and> \<not> js_le (intervalMs ival) (Finite 0))"

definition immediate ::
  "'w TaskFunction \<Rightarrow> ScheduleOptions \<Rightarrow> 'w scheduler \<Rightarrow> suspension \<times> 'w scheduler" where
  "immediate g options s =
     (if runImmediately options = Some True then executeTask_begin g s else (Done, s))"

definition stop_each :: "js_string list \<Rightarrow> 'w scheduler \<Rightarrow> 'w scheduler" where
  "stop_each ks s = foldl (\<lambda>s' taskName. snd (stop taskName s')) s ks"

definition retired :: "nat \<Rightarrow> 'w scheduler \<Rightarrow> bool" where
  "retired tid s = (tid < nextTimer s \<and> map_of (timers s) tid = None)"

section \<open>Example actions and runs\<close>

text \<open>The world is a counter of calls; \<open>count_runs\<close> returns, \<open>always_throws\<close> throws.\<close>

definition count_runs :: "nat TaskFunction" where
  "count_runs w = (Returned, Suc w)"

definition always_throws :: "nat TaskFunction" where
  "always_throws w = (Threw ''boom'', Suc w)"

definition always_rejects :: "nat TaskFunction" where
  "always_rejects w = (Rejected ''late'', Suc w)"

definition no_options :: ScheduleOptions where
  "no_options = \<lparr>runImmediately = None, optMaxExecutions = None\<rparr>"

definition at_most :: "real \<Rightarrow> ScheduleOptions" where
  "at_most k = \<lparr>runImmediately = None, optMaxExecutions = Some (Finite k)\<rparr>"

definition immediately_at_most :: "real \<Rightarrow> ScheduleOptions" where
  "immediately_at_most k = \<lparr>runImmediately = Some True, optMaxExecutions = Some (Finite k)\<rparr>"

definition job :: js_string where
  "job = ascii ''job''"

text \<open>\<open>new Scheduler().schedule('job', count_runs, 1000, {maxExecutions: 1})\<close>\<close>

definition capped_once :: "nat scheduler" where
  "capped_once =
     snd (schedule (Some job) (Function count_runs) (Millis (Finite 1000)) (at_most 1) 0
            (new_Scheduler 0))"

text \<open>\<open>new Scheduler().schedule('job', always_throws, 1000, {maxExecutions: 1})\<close>\<close>

definition failing_capped_once :: "nat scheduler" where
  "failing_capped_once =
     snd (schedule (Some job) (Function always_throws) (Millis (Finite 1000)) (at_most 1) 0
            (new_Scheduler 0))"

text \<open>\<open>capped_once\<close>, followed by \<open>.schedule('ping', always_rejects, 'second')\<close> at time 3.\<close>

definition ping :: js_string where
  "ping = ascii ''ping''"

definition two_tasks :: "nat scheduler" where
  "two_tasks =
     snd (schedule (Some ping) (Function always_rejects) (Unit Second) no_options 3 capped_once)"

text \<open>
  \<open>new Scheduler().schedule('job', always_rejects, 500, {runImmediately: true, maxExecutions: 1})\<close>
  at time 7.
\<close>

definition rejecting_immediately :: "nat scheduler" where
  "rejecting_immediately =
     snd (schedule (Some job) (Function always_rejects) (Millis (Finite 500))
            (immediately_at_most 1) 7 (new_Scheduler 0))"

text \<open>\<open>new Scheduler().schedule('job', always_throws, 'second')\<close>\<close>

definition failing_every_second :: "nat scheduler" where
  "failing_every_second =
     snd (schedule (Some job) (Function always_throws) (Unit Second) no_options 0
            (new_Scheduler 0))"

section \<open>Basic facts\<close>

subsection \<open>Association lists\<close>

lemma delete_absent: "map_of xs k = None \<Longrightarrow> AList.delete k xs = xs"
  by (induction xs) (auto simp: AList.delete_eq split: if_splits)

lemma map_of_delete_same: "map_of (AList.delete k xs) k = None"
  by (simp add: AList.delete_conv')

lemma map_of_distinct_iff:
  "distinct (map fst xs) \<Longrightarrow> ((k, v) \<in> set xs) = (map_of xs k = Some v)"
  by (auto dest: map_of_SomeD)

lemma filter_key_update_absent:
  "map_of xs k = None \<Longrightarrow> filter (\<lambda>p. fst p = k) (AList.update k v xs) = [(k, v)]"
  by (induction xs) (auto split: if_splits)

lemma filter_key_delete: "filter (\<lambda>p. fst p = k) (AList.delete k xs) = []"
  by (induction xs) (auto simp: AList.delete_eq)

subsection \<open>executeTask\<close>

lemma executeTask_begin_tasks: "tasks (snd (executeTask_begin f s)) = tasks s"
  by (simp add: executeTask_begin_def Let_def split: prod.splits completion.splits)

lemma executeTask_begin_timers: "timers (snd (executeTask_begin f s)) = timers s"
  by (simp add: executeTask_begin_def Let_def split: prod.splits completion.splits)

lemma executeTask_begin_nextTimer: "nextTimer (snd (executeTask_begin f s)) = nextTimer s"
  by (simp add: executeTask_begin_def Let_def split: prod.splits completion.splits)

lemma executeTask_begin_world: "world (snd (executeTask_begin f s)) = snd (f (world s))"
  by (simp add: executeTask_begin_def Let_def split: prod.splits completion.splits)

lemma executeTask_begin_trace:
  "trace (snd (executeTask_begin f s)) =
     trace s @ Invoked (fst (f (world s))) #
       (case fst (f (world s)) of Threw e \<Rightarrow> [ConsoleError e] | _ \<Rightarrow> [])"
  by (simp add: executeTask_begin_def Let_def split: prod.splits completion.splits)

lemma executeTask_begin_fst:
  "fst (executeTask_begin f s) =
     (case fst (f (world s)) of Resolved \<Rightarrow> Awaiting None | Rejected e \<Rightarrow> Awaiting (Some e)
      | _ \<Rightarrow> Done)"
  by (simp add: executeTask_begin_def Let_def split: prod.splits completion.splits)

lemma executeTask_resume_fst: "fst (executeTask_resume p s) = None"
  by (simp add: executeTask_resume_def split: suspension.splits option.splits)

lemma executeTask_resume_tasks: "tasks (snd (executeTask_resume p s)) = tasks s"
  by (simp add: executeTask_resume_def split: suspension.splits option.splits)

lemma executeTask_resume_timers: "timers (snd (executeTask_resume p s)) = timers s"
  by (simp add: executeTask_resume_def split: suspension.splits option.splits)

lemma executeTask_resume_nextTimer: "nextTimer (snd (executeTask_resume p s)) = nextTimer s"
  by (simp add: executeTask_resume_def split: suspension.splits option.splits)

lemma executeTask_resume_world: "world (snd (executeTask_resume p s)) = world s"
  by (simp add: executeTask_resume_def split: suspension.splits option.splits)

lemma executeTask_resume_trace:
  "trace (snd (executeTask_resume p s)) =
     trace s @ (case p of Awaiting (Some e) \<Rightarrow> [ConsoleError e] | _ \<Rightarrow> [])"
  by (simp add: executeTask_resume_def split: suspension.splits option.splits)

lemma executeTask_fst: "fst (executeTask f s) = None"
  by (simp add: executeTask_def executeTask_begin_def executeTask_resume_def Let_def
      split: prod.splits completion.splits)

lemma executeTask_tasks: "tasks (snd (executeTask f s)) = tasks s"
  by (simp add: executeTask_def executeTask_begin_def executeTask_resume_def Let_def
      split: prod.splits completion.splits)

lemma executeTask_timers: "timers (snd (executeTask f s)) = timers s"
  by (simp add: executeTask_def executeTask_begin_def executeTask_resume_def Let_def
      split: prod.splits completion.splits)

lemma executeTask_nextTimer: "nextTimer (snd (executeTask f s)) = nextTimer s"
  by (simp add: executeTask_def executeTask_begin_def executeTask_resume_def Let_def
      split: prod.splits completion.splits)

lemma executeTask_world: "world (snd (executeTask f s)) = snd (f (world s))"
  by (simp add: executeTask_def executeTask_begin_def executeTask_resume_def Let_def
      split: prod.splits completion.splits)

lemma executeTask_trace:
  "trace (snd (executeTask f s)) =
     trace s @ Invoked (fst (f (world s))) #
       (case fst (f (world s)) of Threw e \<Rightarrow> [ConsoleError e] | Rejected e \<Rightarrow> [ConsoleError e] | _ \<Rightarrow> [])"
  by (simp add: executeTask_def executeTask_begin_def executeTask_resume_def Let_def
      split: prod.splits completion.splits)

lemma executeTask_invocations: "invocations (snd (executeTask f s)) = Suc (invocations s)"
  by (simp add: invocations_def executeTask_trace is_Invoked_def split: completion.splits)

lemma executeTask_eq: "executeTask f s = (None, snd (executeTask f s))"
  by (metis executeTask_fst prod.collapse)

subsection \<open>stop\<close>

lemma stop_absent: "map_of (tasks s) n = None \<Longrightarrow> stop n s = (False, s)"
  by (simp add: stop_def)

lemma stop_fst: "fst (stop n s) = hasTask n s"
  by (simp add: stop_def hasTask_def split: option.splits)

lemma stop_tasks: "tasks (snd (stop n s)) = AList.delete n (tasks s)"
  by (simp add: stop_def delete_absent split: option.splits)

lemma stop_timers:
  "timers (snd (stop n s)) =
     (case map_of (tasks s) n of None \<Rightarrow> timers s
      | Some task \<Rightarrow> AList.delete (timerId task) (timers s))"
  by (simp add: stop_def split: option.splits)

lemma stop_nextTimer: "nextTimer (snd (stop n s)) = nextTimer s"
  by (simp add: stop_def split: option.splits)

lemma stop_world: "world (snd (stop n s)) = world s"
  by (simp add: stop_def split: option.splits)

lemma stop_invocations: "invocations (snd (stop n s)) = invocations s"
  by (simp add: stop_def invocations_def is_Invoked_def split: option.splits)

lemma stop_hasTask: "\<not> hasTask n (snd (stop n s))"
  by (simp add: hasTask_def stop_tasks map_of_delete_same)

lemma list_all_map_of:
  "distinct (map fst xs) \<Longrightarrow> list_all P xs = (\<forall>k v. map_of xs k = Some v \<longrightarrow> P (k, v))"
  by (auto simp: list_all_iff dest: map_of_SomeD)

lemma well_formed_iff:
  "well_formed s =
     (distinct (map fst (tasks s)) \<and> distinct (map fst (timers s))
      \<and> (\<forall>tid n d. map_of (timers s) tid = Some (n, d) \<longrightarrow>
             tid < nextTimer s \<and> (\<exists>t. map_of (tasks s) n = Some t \<and> timerId t = tid))
      \<and> (\<forall>n t. map_of (tasks s) n = Some t \<longrightarrow>
             map_of (timers s) (timerId t) = Some (n, interval t)))"
proof (cases "distinct (map fst (tasks s)) \<and> distinct (map fst (timers s))")
  case False
  then show ?thesis by (auto simp: well_formed_def)
next
  case True
  then have d1: "distinct (map fst (tasks s))" and d2: "distinct (map fst (timers s))"
    by simp_all
  have a: "(case map_of (tasks s) n of None \<Rightarrow> False | Some task \<Rightarrow> timerId task = tid)
           = (\<exists>t. map_of (tasks s) n = Some t \<and> timerId t = tid)" for n tid
    by (cases "map_of (tasks s) n") simp_all
  show ?thesis
    unfolding well_formed_def list_all_map_of [OF d1] list_all_map_of [OF d2]
    by (simp add: d1 d2 a)
qed

lemma well_formed_new: "well_formed (new_Scheduler w)"
  by (simp add: well_formed_def new_Scheduler_def)

lemma well_formedI:
  assumes "distinct (map fst (tasks s))" and "distinct (map fst (timers s))"
    and "\<And>tid n d. map_of (timers s) tid = Some (n, d) \<Longrightarrow> tid < nextTimer s"
    and "\<And>tid n d. map_of (timers s) tid = Some (n, d) \<Longrightarrow>
           \<exists>t. map_of (tasks s) n = Some t \<and> timerId t = tid"
    and "\<And>n t. map_of (tasks s) n = Some t \<Longrightarrow>
           map_of (timers s) (timerId t) = Some (n, interval t)"
  shows "well_formed s"
  unfolding well_formed_iff using assms by blast

lemma well_formed_tasks: "well_formed s \<Longrightarrow> distinct (map fst (tasks s))"
  by (simp add: well_formed_iff)

lemma well_formed_timers: "well_formed s \<Longrightarrow> distinct (map fst (timers s))"
  by (simp add: well_formed_iff)

lemma well_formed_fresh:
  "well_formed s \<Longrightarrow> map_of (timers s) tid = Some (n, d) \<Longrightarrow> tid < nextTimer s"
  unfolding well_formed_iff by blast

lemma well_formed_owner:
  "well_formed s \<Longrightarrow> map_of (timers s) tid = Some (n, d) \<Longrightarrow>
     \<exists>t. map_of (tasks s) n = Some t \<and> timerId t = tid"
  unfolding well_formed_iff by blast

lemma well_formed_armed:
  "well_formed s \<Longrightarrow> map_of (tasks s) n = Some t \<Longrightarrow>
     map_of (timers s) (timerId t) = Some (n, interval t)"
  unfolding well_formed_iff by blast

lemma well_formed_stop:
  assumes wf: "well_formed s"
  shows "well_formed (snd (stop n s))"
proof (cases "map_of (tasks s) n")
  case None
  then show ?thesis using wf by (simp add: stop_absent)
next
  case (Some t0)
  let ?s = "snd (stop n s)"
  have ta: "tasks ?s = AList.delete n (tasks s)" by (simp add: stop_tasks)
  have ti: "timers ?s = AList.delete (timerId t0) (timers s)" by (simp add: stop_timers Some)
  have nx: "nextTimer ?s = nextTimer s" by (simp add: stop_nextTimer)
  have arm0: "map_of (timers s) (timerId t0) = Some (n, interval t0)"
    using wf Some by (rule well_formed_armed)
  show ?thesis
  proof (rule well_formedI)
    show "distinct (map fst (tasks ?s))"
      using well_formed_tasks [OF wf] by (simp add: ta AList.distinct_delete)
    show "distinct (map fst (timers ?s))"
      using well_formed_timers [OF wf] by (simp add: ti AList.distinct_delete)
  next
    fix tid m d assume a: "map_of (timers ?s) tid = Some (m, d)"
    then have ne: "tid \<noteq> timerId t0" and old: "map_of (timers s) tid = Some (m, d)"
      by (auto simp: ti AList.delete_conv' split: if_splits)
    show "tid < nextTimer ?s" using well_formed_fresh [OF wf old] by (simp add: nx)
    obtain t where t: "map_of (tasks s) m = Some t" "timerId t = tid"
      using well_formed_owner [OF wf old] by blast
    have "m \<noteq> n" using t Some ne by auto
    then show "\<exists>t. map_of (tasks ?s) m = Some t \<and> timerId t = tid"
      using t by (simp add: ta AList.delete_conv')
  next
    fix m t assume a: "map_of (tasks ?s) m = Some t"
    then have ne: "m \<noteq> n" and old: "map_of (tasks s) m = Some t"
      by (auto simp: ta AList.delete_conv' split: if_splits)
    have arm: "map_of (timers s) (timerId t) = Some (m, interval t)"
      using wf old by (rule well_formed_armed)
    have "timerId t \<noteq> timerId t0" using arm arm0 ne by auto
    then show "map_of (timers ?s) (timerId t) = Some (m, interval t)"
      using arm by (simp add: ti AList.delete_conv')
  qed
qed

lemma well_formed_cong:
  "tasks s' = tasks s \<Longrightarrow> timers s' = timers s \<Longrightarrow> nextTimer s' = nextTimer s \<Longrightarrow>
     well_formed s' = well_formed s"
  unfolding well_formed_def by (erule ssubst)+ (rule refl)

lemma well_formed_executeTask: "well_formed s \<Longrightarrow> well_formed (snd (executeTask f s))"
  using well_formed_cong [OF executeTask_tasks executeTask_timers executeTask_nextTimer]
  by blast

lemma increment_tasks_map:
  "map_of (tasks (increment n s)) =
     (map_of (tasks s))(n := map_option (\<lambda>t. t\<lparr>executionCount := Suc (executionCount t)\<rparr>)
                                (map_of (tasks s) n))"
  by (simp add: increment_def AList.map_of_map_entry fun_eq_iff split: option.splits)

lemma increment_timers: "timers (increment n s) = timers s"
  by (simp add: increment_def)

lemma increment_nextTimer: "nextTimer (increment n s) = nextTimer s"
  by (simp add: increment_def)

lemma increment_world: "world (increment n s) = world s"
  by (simp add: increment_def)

lemma increment_trace: "trace (increment n s) = trace s"
  by (simp add: increment_def)

lemma increment_keys: "map fst (tasks (increment n s)) = map fst (tasks s)"
proof -
  have "map fst (AList.map_entry n f xs) = map fst xs" for f and xs :: "(js_string \<times> 'a task) list"
    by (induction xs) auto
  then show ?thesis by (simp add: increment_def)
qed

lemma well_formed_increment:
  assumes wf: "well_formed s"
  shows "well_formed (increment n s)"
proof (rule well_formedI)
  show "distinct (map fst (tasks (increment n s)))"
    using well_formed_tasks [OF wf] by (simp add: increment_keys)
  show "distinct (map fst (timers (increment n s)))"
    using well_formed_timers [OF wf] by (simp add: increment_timers)
next
  fix tid m d assume a: "map_of (timers (increment n s)) tid = Some (m, d)"
  then have old: "map_of (timers s) tid = Some (m, d)" by (simp add: increment_timers)
  show "tid < nextTimer (increment n s)"
    using well_formed_fresh [OF wf old] by (simp add: increment_nextTimer)
  obtain t where t: "map_of (tasks s) m = Some t" "timerId t = tid"
    using well_formed_owner [OF wf old] by blast
  then show "\<exists>t. map_of (tasks (increment n s)) m = Some t \<and> timerId t = tid"
    by (auto simp: increment_tasks_map)
next
  fix m t assume a: "map_of (tasks (increment n s)) m = Some t"
  then obtain t0 where t0: "map_of (tasks s) m = Some t0" "timerId t = timerId t0"
      "interval t = interval t0"
    by (auto simp: increment_tasks_map split: if_splits)
  show "map_of (timers (increment n s)) (timerId t) = Some (m, interval t)"
    using well_formed_armed [OF wf t0(1)] t0 by (simp add: increment_timers)
qed

subsection \<open>schedule\<close>

lemma schedule_rejected:
  "\<not> accepted taskName f ival \<Longrightarrow>
     schedule taskName f ival options now s =
       (Inl (case taskName of None \<Rightarrow> TaskNameRequired
             | Some n \<Rightarrow> if trim n = [] then TaskNameRequired
                         else (case f of NotAFunction \<Rightarrow> FunctionRequired
                               | Function g \<Rightarrow> InvalidInterval ival)), s)"
  by (auto simp: accepted_def schedule_def split: option.splits func_arg.splits)

lemma schedule_accepted_fst:
  "accepted taskName f ival \<Longrightarrow> fst (schedule taskName f ival options now s) = Inr ()"
  by (auto simp: accepted_def schedule_def Let_def split: option.splits func_arg.splits prod.splits)

lemma schedule_throws_iff:
  "(\<exists>e. fst (schedule taskName f ival options now s) = Inl e) = (\<not> accepted taskName f ival)"
  by (cases "accepted taskName f ival") (simp_all add: schedule_accepted_fst schedule_rejected)

lemma schedule_throws_unchanged:
  "fst (schedule taskName f ival options now s) = Inl e \<Longrightarrow>
     snd (schedule taskName f ival options now s) = s"
  using schedule_throws_iff [of taskName f ival options now s]
  by (auto simp: schedule_rejected)

lemma immediate_tasks: "tasks (snd (immediate g options s)) = tasks s"
  by (simp add: immediate_def executeTask_begin_tasks)

lemma immediate_timers: "timers (snd (immediate g options s)) = timers s"
  by (simp add: immediate_def executeTask_begin_timers)

lemma immediate_nextTimer: "nextTimer (snd (immediate g options s)) = nextTimer s"
  by (simp add: immediate_def executeTask_begin_nextTimer)

lemma schedule_accepted:
  assumes "accepted (Some n) (Function g) ival"
  shows "schedule (Some n) (Function g) ival options now s =
     (Inr (),
      snd (executeTask_resume (fst (immediate g options (snd (stop n s))))
       ((snd (immediate g options (snd (stop n s))))
        \<lparr>tasks := AList.update n
            \<lparr>timerId = nextTimer s, func = g, interval = intervalMs ival, startTime = now,
             executionCount = 0, maxExecutions = optMaxExecutions options\<rparr>
            (AList.delete n (tasks s)),
         timers := timers (snd (stop n s)) @ [(nextTimer s, n, intervalMs ival)],
         nextTimer := Suc (nextTimer s),
         trace := trace (snd (immediate g options (snd (stop n s)))) @
                    [SetInterval (nextTimer s) n (intervalMs ival),
                     ConsoleLog (Scheduled n (intervalMs ival))]\<rparr>)))"
proof -
  obtain p s2 where im: "immediate g options (snd (stop n s)) = (p, s2)"
    by (cases "immediate g options (snd (stop n s))")
  have ta: "tasks s2 = AList.delete n (tasks s)"
    using immediate_tasks [of g options "snd (stop n s)"] by (simp add: im stop_tasks)
  have ti: "timers s2 = timers (snd (stop n s))"
    using immediate_timers [of g options "snd (stop n s)"] by (simp add: im)
  have nx: "nextTimer s2 = nextTimer s"
    using immediate_nextTimer [of g options "snd (stop n s)"] by (simp add: im stop_nextTimer)
  have "s2\<lparr>timers := timers s2 @ [(nextTimer s2, n, intervalMs ival)],
            nextTimer := Suc (nextTimer s2),
            trace := trace s2 @ [SetInterval (nextTimer s2) n (intervalMs ival)],
            tasks := AList.update n
              \<lparr>timerId = nextTimer s2, func = g, interval = intervalMs ival, startTime = now,
               executionCount = 0, maxExecutions = optMaxExecutions options\<rparr> (tasks s2),
            trace := (trace s2 @ [SetInterval (nextTimer s2) n (intervalMs ival)]) @
                       [ConsoleLog (Scheduled n (intervalMs ival))]\<rparr>
      = s2\<lparr>tasks := AList.update n
              \<lparr>timerId = nextTimer s, func = g, interval = intervalMs ival, startTime = now,
               executionCount = 0, maxExecutions = optMaxExecutions options\<rparr>
              (AList.delete n (tasks s)),
            timers := timers (snd (stop n s)) @ [(nextTimer s, n, intervalMs ival)],
            nextTimer := Suc (nextTimer s),
            trace := trace s2 @ [SetInterval (nextTimer s) n (intervalMs ival),
                                 ConsoleLog (Scheduled n (intervalMs ival))]\<rparr>"
    by (rule scheduler.equality) (simp_all add: ta ti nx)
  then show ?thesis
    using assms
    by (simp add: accepted_def schedule_def Let_def setInterval_def im [unfolded immediate_def] im)
qed

lemma schedule_accepted_tasks:
  "accepted (Some n) (Function g) ival \<Longrightarrow>
     tasks (snd (schedule (Some n) (Function g) ival options now s)) =
       AList.update n
         \<lparr>timerId = nextTimer s, func = g, interval = intervalMs ival, startTime = now,
          executionCount = 0, maxExecutions = optMaxExecutions options\<rparr>
         (AList.delete n (tasks s))"
  by (simp add: schedule_accepted executeTask_resume_tasks executeTask_resume_timers
      executeTask_resume_nextTimer executeTask_resume_world)

lemma schedule_accepted_timers:
  "accepted (Some n) (Function g) ival \<Longrightarrow>
     timers (snd (schedule (Some n) (Function g) ival options now s)) =
       timers (snd (stop n s)) @ [(nextTimer s, n, intervalMs ival)]"
  by (simp add: schedule_accepted executeTask_resume_tasks executeTask_resume_timers
      executeTask_resume_nextTimer executeTask_resume_world)

lemma schedule_accepted_nextTimer:
  "accepted (Some n) (Function g) ival \<Longrightarrow>
     nextTimer (snd (schedule (Some n) (Function g) ival options now s)) = Suc (nextTimer s)"
  by (simp add: schedule_accepted executeTask_resume_tasks executeTask_resume_timers
      executeTask_resume_nextTimer executeTask_resume_world)

lemma accepted_cases:
  assumes "accepted taskName f ival"
  obtains n g where "taskName = Some n" "f = Function g"
  using assms by (auto simp: accepted_def split: option.splits func_arg.splits)

lemma well_formed_schedule:
  assumes wf: "well_formed s"
  shows "well_formed (snd (schedule taskName f ival options now s))"
proof (cases "accepted taskName f ival")
  case False
  then show ?thesis using wf by (simp add: schedule_rejected)
next
  case True
  then obtain n g where ng: "taskName = Some n" "f = Function g" by (rule accepted_cases)
  have acc: "accepted (Some n) (Function g) ival" using True ng by simp
  let ?s1 = "snd (stop n s)"
  let ?s = "snd (schedule (Some n) (Function g) ival options now s)"
  let ?e = "\<lparr>timerId = nextTimer s, func = g, interval = intervalMs ival, startTime = now,
          executionCount = 0, maxExecutions = optMaxExecutions options\<rparr>"
  have wf1: "well_formed ?s1" using wf by (rule well_formed_stop)
  have t1: "tasks ?s1 = AList.delete n (tasks s)" by (simp add: stop_tasks)
  have n1: "nextTimer ?s1 = nextTimer s" by (simp add: stop_nextTimer)
  have ta: "map_of (tasks ?s) = (map_of (tasks ?s1))(n \<mapsto> ?e)"
    by (simp add: schedule_accepted_tasks [OF acc] AList.update_conv' t1)
  have ti: "timers ?s = timers ?s1 @ [(nextTimer s, n, intervalMs ival)]"
    by (rule schedule_accepted_timers [OF acc])
  have nx: "nextTimer ?s = Suc (nextTimer s)"
    by (rule schedule_accepted_nextTimer [OF acc])
  have fresh: "map_of (timers ?s1) (nextTimer s) = None"
  proof (cases "map_of (timers ?s1) (nextTimer s)")
    case (Some p)
    then have "nextTimer s < nextTimer ?s1"
      using well_formed_fresh [OF wf1, of "nextTimer s" "fst p" "snd p"] by simp
    then show ?thesis by (simp add: n1)
  qed simp
  have absent: "map_of (tasks ?s1) n = None" by (simp add: t1 map_of_delete_same)
  have tim: "map_of (timers ?s) tid =
      (case map_of (timers ?s1) tid of Some p \<Rightarrow> Some p
       | None \<Rightarrow> if tid = nextTimer s then Some (n, intervalMs ival) else None)" for tid
    by (simp add: ti map_add_def split: option.splits)
  have "well_formed ?s"
  proof (rule well_formedI)
    show "distinct (map fst (tasks ?s))"
      using well_formed_tasks [OF wf]
      by (simp add: schedule_accepted_tasks [OF acc] AList.distinct_update AList.distinct_delete)
    have "nextTimer s \<notin> fst ` set (timers ?s1)"
      using fresh by (simp add: map_of_eq_None_iff)
    then show "distinct (map fst (timers ?s))"
      using well_formed_timers [OF wf1] by (simp add: ti)
  next
    fix tid m d assume a: "map_of (timers ?s) tid = Some (m, d)"
    show "tid < nextTimer ?s"
    proof (cases "map_of (timers ?s1) tid")
      case None
      then show ?thesis using a by (simp add: tim nx split: if_splits)
    next
      case (Some p)
      then have "map_of (timers ?s1) tid = Some (m, d)" using a by (simp add: tim)
      from well_formed_fresh [OF wf1 this] show ?thesis by (simp add: nx n1)
    qed
    show "\<exists>t. map_of (tasks ?s) m = Some t \<and> timerId t = tid"
    proof (cases "map_of (timers ?s1) tid")
      case None
      then show ?thesis using a by (simp add: tim ta split: if_splits)
    next
      case (Some p)
      then have old: "map_of (timers ?s1) tid = Some (m, d)" using a by (simp add: tim)
      obtain t where t: "map_of (tasks ?s1) m = Some t" "timerId t = tid"
        using well_formed_owner [OF wf1 old] by blast
      then have "m \<noteq> n" using absent by auto
      then show ?thesis using t by (simp add: ta)
    qed
  next
    fix m t assume a: "map_of (tasks ?s) m = Some t"
    show "map_of (timers ?s) (timerId t) = Some (m, interval t)"
    proof (cases "m = n")
      case True
      then have "t = ?e" using a by (simp add: ta)
      then show ?thesis using True fresh by (simp add: tim)
    next
      case False
      then have "map_of (tasks ?s1) m = Some t" using a by (simp add: ta)
      from well_formed_armed [OF wf1 this] show ?thesis by (simp add: tim)
    qed
  qed
  then show ?thesis by (simp add: ng)
qed

subsection \<open>tick, fire, executeNow\<close>

lemma tick_absent: "map_of (tasks s) n = None \<Longrightarrow> tick n s = (None, s)"
  by (simp add: tick_def)

lemma tick_present:
  "map_of (tasks s) n = Some t \<Longrightarrow>
     tick n s =
       (None,
        if cap_reached (t\<lparr>executionCount := Suc (executionCount t)\<rparr>)
        then snd (stop n (increment n (snd (executeTask (func t) s))))
        else increment n (snd (executeTask (func t) s)))"
  using executeTask_fst [of "func t" s]
  by (auto simp: tick_def Let_def split: prod.splits option.splits)

lemma tick_fst: "fst (tick n s) = None"
  by (cases "map_of (tasks s) n") (simp_all add: tick_absent tick_present)

lemma well_formed_tick: "well_formed s \<Longrightarrow> well_formed (snd (tick n s))"
  by (cases "map_of (tasks s) n")
    (simp_all add: tick_absent tick_present well_formed_stop well_formed_increment
      well_formed_executeTask)

lemma fire_fst: "fst (fire tid s) = None"
  by (simp add: fire_def tick_fst split: option.splits)

lemma well_formed_fire: "well_formed s \<Longrightarrow> well_formed (snd (fire tid s))"
  by (simp add: fire_def well_formed_tick split: option.splits)

lemma executeNow_absent: "map_of (tasks s) n = None \<Longrightarrow> executeNow n s = (Inr False, s)"
  by (simp add: executeNow_def)

lemma executeNow_present:
  "map_of (tasks s) n = Some t \<Longrightarrow>
     executeNow n s = (Inr True, increment n (snd (executeTask (func t) s)))"
  using executeTask_fst [of "func t" s]
  by (auto simp: executeNow_def split: prod.splits option.splits)

lemma well_formed_executeNow: "well_formed s \<Longrightarrow> well_formed (snd (executeNow n s))"
  by (cases "map_of (tasks s) n")
    (simp_all add: executeNow_absent executeNow_present well_formed_increment
      well_formed_executeTask)

subsection \<open>stopAll, destroy\<close>

lemma stop_each_Nil: "stop_each [] s = s"
  by (simp add: stop_each_def)

lemma stop_each_Cons: "stop_each (k # ks) s = stop_each ks (snd (stop k s))"
  by (simp add: stop_each_def)

lemma stopAll_eq: "stopAll s = (taskCount s, stop_each (map fst (tasks s)) s)"
  by (simp add: stopAll_def stop_each_def taskCount_def)

lemma well_formed_stop_each: "well_formed s \<Longrightarrow> well_formed (stop_each ks s)"
  by (induction ks arbitrary: s) (simp_all add: stop_each_Nil stop_each_Cons well_formed_stop)

lemma stop_each_tasks:
  "tasks (stop_each ks s) = filter (\<lambda>p. fst p \<notin> set ks) (tasks s)"
proof (induction ks arbitrary: s)
  case Nil
  then show ?case by (simp add: stop_each_Nil)
next
  case (Cons k ks)
  have "filter (\<lambda>p. fst p \<notin> set ks) (AList.delete k xs) = filter (\<lambda>p. fst p \<notin> set (k # ks)) xs"
    for xs :: "(js_string \<times> 'a task) list"
    by (induction xs) (auto simp: AList.delete_eq)
  then show ?case by (simp add: stop_each_Cons Cons.IH stop_tasks)
qed

lemma stop_each_nextTimer: "nextTimer (stop_each ks s) = nextTimer s"
  by (induction ks arbitrary: s) (simp_all add: stop_each_Nil stop_each_Cons stop_nextTimer)

lemma stop_each_world: "world (stop_each ks s) = world s"
  by (induction ks arbitrary: s) (simp_all add: stop_each_Nil stop_each_Cons stop_world)

lemma stop_each_invocations: "invocations (stop_each ks s) = invocations s"
  by (induction ks arbitrary: s) (simp_all add: stop_each_Nil stop_each_Cons stop_invocations)

lemma stopAll_tasks: "tasks (snd (stopAll s)) = []"
  by (simp add: stopAll_eq stop_each_tasks)

lemma well_formed_stopAll: "well_formed s \<Longrightarrow> well_formed (snd (stopAll s))"
  by (simp add: stopAll_eq well_formed_stop_each)

lemma well_formed_no_tasks:
  assumes "well_formed s" and "tasks s = []"
  shows "timers s = []"
proof (cases "timers s")
  case (Cons p ps)
  obtain tid n d where p: "p = (tid, n, d)" by (cases p) auto
  have "map_of (timers s) tid = Some (n, d)" by (simp add: Cons p)
  from well_formed_owner [OF assms(1) this] show ?thesis by (simp add: assms(2))
qed simp

lemma stopAll_timers: "well_formed s \<Longrightarrow> timers (snd (stopAll s)) = []"
  by (rule well_formed_no_tasks) (simp_all add: well_formed_stopAll stopAll_tasks)

lemma destroy_tasks: "tasks (destroy s) = []"
  by (simp add: destroy_def Let_def stopAll_tasks)

lemma destroy_timers: "timers (destroy s) = timers (snd (stopAll s))"
  by (simp add: destroy_def Let_def)

lemma destroy_nextTimer: "nextTimer (destroy s) = nextTimer s"
  by (simp add: destroy_def Let_def stopAll_eq stop_each_nextTimer)

lemma well_formed_destroy: "well_formed s \<Longrightarrow> well_formed (destroy s)"
proof -
  assume "well_formed s"
  then have "well_formed (snd (stopAll s))" by (rule well_formed_stopAll)
  moreover have "well_formed (destroy s) = well_formed (snd (stopAll s))"
    by (rule well_formed_cong) (simp_all add: destroy_def Let_def)
  ultimately show ?thesis by simp
qed

subsection \<open>Runs\<close>

lemma well_formed_perform: "well_formed s \<Longrightarrow> well_formed (perform x s)"
  by (cases x)
    (simp_all add: well_formed_schedule well_formed_stop well_formed_executeNow
      well_formed_stopAll well_formed_destroy well_formed_fire)

lemma well_formed_run: "well_formed s \<Longrightarrow> well_formed (run xs s)"
  by (induction xs arbitrary: s) (simp_all add: well_formed_perform)

lemma retired_stop: "retired tid s \<Longrightarrow> retired tid (snd (stop n s))"
  by (simp add: retired_def stop_nextTimer stop_timers AList.delete_conv' split: option.splits)

lemma retired_executeTask: "retired tid s \<Longrightarrow> retired tid (snd (executeTask f s))"
  by (simp add: retired_def executeTask_nextTimer executeTask_timers)

lemma retired_increment: "retired tid s \<Longrightarrow> retired tid (increment n s)"
  by (simp add: retired_def increment_nextTimer increment_timers)

lemma retired_tick: "retired tid s \<Longrightarrow> retired tid (snd (tick n s))"
  by (cases "map_of (tasks s) n")
    (simp_all add: tick_absent tick_present retired_stop retired_increment retired_executeTask)

lemma retired_fire: "retired tid s \<Longrightarrow> retired tid (snd (fire k s))"
  by (simp add: fire_def retired_tick split: option.splits)

lemma retired_executeNow: "retired tid s \<Longrightarrow> retired tid (snd (executeNow n s))"
  by (cases "map_of (tasks s) n")
    (simp_all add: executeNow_absent executeNow_present retired_increment retired_executeTask)

lemma retired_stop_each: "retired tid s \<Longrightarrow> retired tid (stop_each ks s)"
  by (induction ks arbitrary: s) (simp_all add: stop_each_Nil stop_each_Cons retired_stop)

lemma retired_stopAll: "retired tid s \<Longrightarrow> retired tid (snd (stopAll s))"
  by (simp add: stopAll_eq retired_stop_each)

lemma retired_destroy: "retired tid s \<Longrightarrow> retired tid (destroy s)"
  using retired_stopAll [of tid s]
  by (simp add: retired_def destroy_timers destroy_nextTimer stopAll_eq stop_each_nextTimer)

lemma retired_schedule:
  assumes r: "retired tid s"
  shows "retired tid (snd (schedule taskName f ival options now s))"
proof (cases "accepted taskName f ival")
  case False
  then show ?thesis using r by (simp add: schedule_rejected)
next
  case True
  then obtain n g where ng: "taskName = Some n" "f = Function g" by (rule accepted_cases)
  have acc: "accepted (Some n) (Function g) ival" using True ng by simp
  have "retired tid (snd (stop n s))" using r by (rule retired_stop)
  then show ?thesis
    using r
    by (simp add: ng retired_def schedule_accepted_timers [OF acc]
        schedule_accepted_nextTimer [OF acc] stop_nextTimer map_add_def)
qed

lemma retired_perform: "retired tid s \<Longrightarrow> retired tid (perform x s)"
  by (cases x)
    (simp_all add: retired_schedule retired_stop retired_executeNow retired_stopAll
      retired_destroy retired_fire)

lemma retired_run: "retired tid s \<Longrightarrow> retired tid (run xs s)"
  by (induction xs arbitrary: s) (simp_all add: retired_perform)

lemma retired_never_fires:
  "retired tid s \<Longrightarrow> fire tid (run xs s) = (None, run xs s)"
  using retired_run [of tid s xs] by (simp add: retired_def fire_def)

subsection \<open>More on \<open>schedule\<close> and the timer callback\<close>

lemma accepted_iff:
  "accepted taskName f ival =
     (\<not> ((\<forall>n. taskName = Some n \<longrightarrow> trim n = []) \<or> f = NotAFunction
         \<or> falsy (intervalMs ival) \<or> js_le (intervalMs ival) (Finite 0)))"
  by (auto simp: accepted_def split: option.splits func_arg.splits)

lemma schedule_ok_accepted:
  "fst (schedule taskName f ival options now s) = Inr () \<Longrightarrow> accepted taskName f ival"
  using schedule_throws_iff [of taskName f ival options now s] by auto

lemma reject_interval_iff:
  "(falsy x \<or> js_le x (Finite 0)) =
     (case x of NaN \<Rightarrow> True | PosInfinity \<Rightarrow> False | NegInfinity \<Rightarrow> True | Finite r \<Rightarrow> r \<le> 0)"
  by (cases x) auto

lemma immediate_on:
  "runImmediately options = Some True \<Longrightarrow> immediate g options s = executeTask_begin g s"
  by (simp add: immediate_def)

lemma immediate_skip:
  "runImmediately options \<noteq> Some True \<Longrightarrow> immediate g options s = (Done, s)"
  by (simp add: immediate_def)

lemma executeTask_begin_invocations:
  "invocations (snd (executeTask_begin f s)) = Suc (invocations s)"
  by (simp add: invocations_def executeTask_begin_trace is_Invoked_def split: completion.splits)

lemma schedule_accepted_world:
  "accepted (Some n) (Function g) ival \<Longrightarrow>
     world (snd (schedule (Some n) (Function g) ival options now s)) =
       world (snd (immediate g options (snd (stop n s))))"
  by (simp add: schedule_accepted executeTask_resume_world)

lemma schedule_accepted_trace:
  "accepted (Some n) (Function g) ival \<Longrightarrow>
     trace (snd (schedule (Some n) (Function g) ival options now s)) =
       trace (snd (immediate g options (snd (stop n s)))) @
         [SetInterval (nextTimer s) n (intervalMs ival), ConsoleLog (Scheduled n (intervalMs ival))] @
         (case fst (immediate g options (snd (stop n s))) of
            Awaiting (Some e) \<Rightarrow> [ConsoleError e] | _ \<Rightarrow> [])"
  by (simp add: schedule_accepted executeTask_resume_trace)

lemma schedule_accepted_invocations:
  "accepted (Some n) (Function g) ival \<Longrightarrow>
     invocations (snd (schedule (Some n) (Function g) ival options now s)) =
       invocations (snd (immediate g options (snd (stop n s))))"
  by (simp add: invocations_def schedule_accepted_trace is_Invoked_def
      split: suspension.splits option.splits)

lemma stop_trace_present:
  "map_of (tasks s) n = Some t \<Longrightarrow>
     trace (snd (stop n s)) = trace s @ [ClearInterval (timerId t), ConsoleLog (Stopped n)]"
  by (simp add: stop_def)

lemma immediate_trace_prefix: "\<exists>rest. trace (snd (immediate g options s)) = trace s @ rest"
  by (simp add: immediate_def executeTask_begin_trace)

text \<open>Every state that a run reaches from a new scheduler is well formed.\<close>

lemma well_formed_reachable: "well_formed (run xs (new_Scheduler w))"
  by (rule well_formed_run) (rule well_formed_new)

text \<open>
  The timer path does stop a task at its cap: a tick whose increment reaches
  \<open>maxExecutions\<close> ends with \<open>stop\<close>, so the entry and its timer are gone.
\<close>

lemma tick_reaching_cap_stops:
  assumes "map_of (tasks s) n = Some t"
    and "cap_reached (t\<lparr>executionCount := Suc (executionCount t)\<rparr>)"
  shows "\<not> hasTask n (snd (tick n s)) \<and> map_of (timers (snd (tick n s))) (timerId t) = None"
proof -
  let ?s2 = "increment n (snd (executeTask (func t) s))"
  have eq: "snd (tick n s) = snd (stop n ?s2)"
    using assms by (simp add: tick_present)
  have "map_of (tasks ?s2) n = Some (t\<lparr>executionCount := Suc (executionCount t)\<rparr>)"
    using assms(1) by (simp add: increment_tasks_map executeTask_tasks)
  then have "map_of (timers (snd (stop n ?s2))) (timerId t) = None"
    by (simp add: stop_timers map_of_delete_same)
  then show ?thesis by (simp add: eq stop_hasTask)
qed

lemma cap_reached_positive_integer:
  "maxExecutions t = Some (Finite (real k)) \<Longrightarrow> 0 < k \<Longrightarrow>
     cap_reached t = (k \<le> executionCount t)"
  by (simp add: cap_reached_def js_ge_def)

subsection \<open>The example runs\<close>

lemma job_eq: "job = [106, 111, 98]"
  by (simp add: job_def ascii_def)

lemma trim_job: "trim job = job"
  by (simp add: job_eq trim_def is_white_space_def)

lemma trim_job_nonempty: "trim job \<noteq> []"
  by (simp add: job_eq trim_def is_white_space_def)

lemma trim_blank: "trim (ascii '' '') = []"
  by (simp add: trim_def ascii_def is_white_space_def)

lemma ping_eq: "ping = [112, 105, 110, 103]"
  by (simp add: ping_def ascii_def)

lemma trim_ping_nonempty: "trim ping \<noteq> []"
  by (simp add: ping_eq trim_def is_white_space_def)

lemma ping_not_job: "ping \<noteq> job" "job \<noteq> ping"
  by (simp_all add: ping_eq job_eq)

lemma accepted_job_1000: "accepted (Some job) (Function g) (Millis (Finite 1000))"
  by (simp add: accepted_def job_eq trim_def is_white_space_def)

lemma capped_once_eq:
  "capped_once =
     \<lparr>tasks = [(job, \<lparr>timerId = 0, func = count_runs, interval = Finite 1000, startTime = 0,
                       executionCount = 0, maxExecutions = Some (Finite 1)\<rparr>)],
      timers = [(0, job, Finite 1000)],
      nextTimer = 1,
      trace = [SetInterval 0 job (Finite 1000), ConsoleLog (Scheduled job (Finite 1000))],
      world = 0\<rparr>"
  by (simp add: capped_once_def schedule_accepted [OF accepted_job_1000] new_Scheduler_def
      stop_def immediate_def executeTask_resume_def at_most_def)

lemma well_formed_capped_once: "well_formed capped_once"
  by (simp add: capped_once_eq well_formed_def)

lemma two_tasks_eq:
  "two_tasks =
     \<lparr>tasks = [(job, \<lparr>timerId = 0, func = count_runs, interval = Finite 1000, startTime = 0,
                       executionCount = 0, maxExecutions = Some (Finite 1)\<rparr>),
               (ping, \<lparr>timerId = 1, func = always_rejects, interval = Finite 1000, startTime = 3,
                        executionCount = 0, maxExecutions = None\<rparr>)],
      timers = [(0, job, Finite 1000), (1, ping, Finite 1000)],
      nextTimer = 2,
      trace = [SetInterval 0 job (Finite 1000), ConsoleLog (Scheduled job (Finite 1000)),
               SetInterval 1 ping (Finite 1000), ConsoleLog (Scheduled ping (Finite 1000))],
      world = 0\<rparr>"
proof -
  have acc: "accepted (Some ping) (Function always_rejects) (Unit Second)"
    by (simp add: accepted_def trim_ping_nonempty)
  show ?thesis
    by (simp add: two_tasks_def schedule_accepted [OF acc] capped_once_eq stop_def immediate_def executeTask_resume_def
        no_options_def AList.delete_eq ping_not_job)
qed

lemma well_formed_two_tasks: "well_formed two_tasks"
  unfolding two_tasks_def using well_formed_capped_once by (rule well_formed_schedule)

lemma failing_capped_once_eq:
  "failing_capped_once =
     \<lparr>tasks = [(job, \<lparr>timerId = 0, func = always_throws, interval = Finite 1000, startTime = 0,
                       executionCount = 0, maxExecutions = Some (Finite 1)\<rparr>)],
      timers = [(0, job, Finite 1000)],
      nextTimer = 1,
      trace = [SetInterval 0 job (Finite 1000), ConsoleLog (Scheduled job (Finite 1000))],
      world = 0\<rparr>"
  by (simp add: failing_capped_once_def schedule_accepted [OF accepted_job_1000] new_Scheduler_def
      stop_def immediate_def executeTask_resume_def at_most_def)

lemma failing_every_second_eq:
  "failing_every_second =
     \<lparr>tasks = [(job, \<lparr>timerId = 0, func = always_throws, interval = Finite 1000, startTime = 0,
                       executionCount = 0, maxExecutions = None\<rparr>)],
      timers = [(0, job, Finite 1000)],
      nextTimer = 1,
      trace = [SetInterval 0 job (Finite 1000), ConsoleLog (Scheduled job (Finite 1000))],
      world = 0\<rparr>"
proof -
  have acc: "accepted (Some job) (Function always_throws) (Unit Second)"
    by (simp add: accepted_def trim_job_nonempty)
  show ?thesis
    by (simp add: failing_every_second_def schedule_accepted [OF acc] new_Scheduler_def
        stop_def immediate_def executeTask_resume_def no_options_def)
qed

lemma rejecting_immediately_eq:
  "rejecting_immediately =
     \<lparr>tasks = [(job, \<lparr>timerId = 0, func = always_rejects, interval = Finite 500, startTime = 7,
                       executionCount = 0, maxExecutions = Some (Finite 1)\<rparr>)],
      timers = [(0, job, Finite 500)],
      nextTimer = 1,
      trace = [Invoked (Rejected ''late''), SetInterval 0 job (Finite 500),
               ConsoleLog (Scheduled job (Finite 500)), ConsoleError ''late''],
      world = 1\<rparr>"
proof -
  have acc: "accepted (Some job) (Function always_rejects) (Millis (Finite 500))"
    by (simp add: accepted_def trim_job_nonempty)
  show ?thesis
    by (simp add: rejecting_immediately_def schedule_accepted [OF acc] new_Scheduler_def stop_def
        immediate_def executeTask_begin_def executeTask_resume_def always_rejects_def
        immediately_at_most_def)
qed

lemma minute_replaces_ok:
  "fst (schedule (Some job) (Function always_throws) (Unit Minute) no_options 42 capped_once) = Inr ()"
  by (simp add: schedule_accepted_fst accepted_def trim_job_nonempty)

section \<open>The claims\<close>

text \<open>
  C1. A task registered with \<open>maxExecutions\<close> \<open>k\<close> is to be gone from the registry as soon as
  its \<open>executionCount\<close> reaches \<open>k\<close>, on every path that increments the count. The timer
  callback does that (\<open>tick_reaching_cap_stops\<close>). \<open>executeNow\<close> increments and makes no
  test: on the example with \<open>maxExecutions\<close> 1 it brings the count to 1, and the task stays
  registered with its timer armed; the next tick calls the action a second time and only
  then stops the task. A tick on the untouched example stops it after one call.
\<close>

theorem executeNow_at_cap_keeps_task:
  "fst (executeNow job capped_once) = Inr True
   \<and> map_of (tasks (snd (executeNow job capped_once))) job =
        Some \<lparr>timerId = 0, func = count_runs, interval = Finite 1000, startTime = 0,
              executionCount = 1, maxExecutions = Some (Finite 1)\<rparr>
   \<and> hasTask job (snd (executeNow job capped_once))
   \<and> map_of (timers (snd (executeNow job capped_once))) 0 = Some (job, Finite 1000)
   \<and> world (snd (executeNow job capped_once)) = 1
   \<and> world (snd (fire 0 (snd (executeNow job capped_once)))) = 2
   \<and> \<not> hasTask job (snd (fire 0 (snd (executeNow job capped_once))))
   \<and> \<not> hasTask job (snd (fire 0 capped_once))"
  by (simp add: capped_once_eq hasTask_def executeNow_def fire_def tick_def executeTask_def
      executeTask_begin_def executeTask_resume_def count_runs_def increment_def cap_reached_def js_ge_def stop_def
      AList.delete_eq)

text \<open>
  C2, as stated, fails: \<open>Infinity\<close> is not a positive finite number, and \<open>schedule\<close>
  accepts it, since \<open>!Infinity\<close> is false and \<open>Infinity <= 0\<close> is false.
\<close>

theorem schedule_accepts_Infinity:
  "\<not> spec_positive_finite (intervalMs (Millis PosInfinity))
   \<and> fst (schedule (Some job) (Function count_runs) (Millis PosInfinity) no_options 0
            (new_Scheduler 0)) = Inr ()"
  by (simp add: spec_positive_finite_def schedule_accepted_fst accepted_def trim_job_nonempty)

text \<open>
  C2, amended. A symbolic interval resolves through the table (1000, 60000, 3600000,
  86400000 and 604800000 ms), a number is used as it is, and for a valid name and
  function \<open>schedule\<close> throws, with the error that names the interval, exactly when the
  resolved value is NaN, zero, negative or \<open>-Infinity\<close>. Every positive finite number is
  accepted, and so is \<open>Infinity\<close>; the entry stores the resolved value.
\<close>

theorem schedule_interval_test:
  assumes "trim n \<noteq> []"
  shows "intervalMs (Unit Second) = Finite 1000 \<and> intervalMs (Unit Minute) = Finite 60000
    \<and> intervalMs (Unit Hour) = Finite 3600000 \<and> intervalMs (Unit Day) = Finite 86400000
    \<and> intervalMs (Unit Week) = Finite 604800000 \<and> intervalMs (Millis x) = x
    \<and> (\<exists>e. fst (schedule (Some n) (Function g) ival options now s) = Inl e)
        = (case intervalMs ival of NaN \<Rightarrow> True | PosInfinity \<Rightarrow> False | NegInfinity \<Rightarrow> True
           | Finite r \<Rightarrow> r \<le> 0)
    \<and> (\<forall>e. fst (schedule (Some n) (Function g) ival options now s) = Inl e \<longrightarrow>
           e = InvalidInterval ival)
    \<and> (spec_positive_finite (intervalMs ival) \<or> intervalMs ival = PosInfinity \<longrightarrow>
           fst (schedule (Some n) (Function g) ival options now s) = Inr ()
           \<and> map_option interval
               (map_of (tasks (snd (schedule (Some n) (Function g) ival options now s))) n)
             = Some (intervalMs ival))"
proof -
  have acc: "accepted (Some n) (Function g) ival
      = (\<not> (falsy (intervalMs ival) \<or> js_le (intervalMs ival) (Finite 0)))"
    using assms by (simp add: accepted_def)
  have thr: "(\<exists>e. fst (schedule (Some n) (Function g) ival options now s) = Inl e)
      = (case intervalMs ival of NaN \<Rightarrow> True | PosInfinity \<Rightarrow> False | NegInfinity \<Rightarrow> True
         | Finite r \<Rightarrow> r \<le> 0)"
    unfolding schedule_throws_iff acc reject_interval_iff by simp
  have err: "e = InvalidInterval ival"
    if "fst (schedule (Some n) (Function g) ival options now s) = Inl e" for e
  proof -
    have "\<not> accepted (Some n) (Function g) ival"
      using that schedule_throws_iff [of "Some n" "Function g" ival options now s] by blast
    then show ?thesis using that assms by (simp add: schedule_rejected)
  qed
  have ok: "fst (schedule (Some n) (Function g) ival options now s) = Inr ()
      \<and> map_option interval
          (map_of (tasks (snd (schedule (Some n) (Function g) ival options now s))) n)
        = Some (intervalMs ival)"
    if "spec_positive_finite (intervalMs ival) \<or> intervalMs ival = PosInfinity"
  proof -
    have "accepted (Some n) (Function g) ival"
      using that unfolding acc reject_interval_iff spec_positive_finite_def
      by (cases "intervalMs ival") auto
    then show ?thesis
      by (simp add: schedule_accepted_fst schedule_accepted_tasks AList.update_conv')
  qed
  show ?thesis using thr err ok by simp
qed

text \<open>\<open>schedule('job', f, 'second')\<close> stores 1000; \<open>schedule('job', f, -5)\<close> throws.\<close>

theorem schedule_interval_test_witness:
  "trim job \<noteq> [] \<and> spec_positive_finite (intervalMs (Unit Second))
   \<and> fst (schedule (Some job) (Function count_runs) (Unit Second) no_options 0 (new_Scheduler 0))
       = Inr ()
   \<and> map_option interval
        (map_of (tasks (snd (schedule (Some job) (Function count_runs) (Unit Second) no_options 0
                              (new_Scheduler 0)))) job) = Some (Finite 1000)
   \<and> fst (schedule (Some job) (Function count_runs) (Millis (Finite (- 5))) no_options 0
            (new_Scheduler 0)) = Inl (InvalidInterval (Millis (Finite (- 5))))"
  using schedule_interval_test [where n = job and g = count_runs and ival = "Unit Second"
      and options = no_options and now = 0 and s = "new_Scheduler 0", OF trim_job_nonempty]
    schedule_interval_test [where n = job and g = count_runs and ival = "Millis (Finite (- 5))"
      and options = no_options and now = 0 and s = "new_Scheduler 0", OF trim_job_nonempty]
  by (auto simp: trim_job_nonempty spec_positive_finite_def)

text \<open>
  C3, as stated, fails on a tick that reaches the cap: the action of the example throws,
  the tick propagates nothing and counts, and the task, whose \<open>maxExecutions\<close> is 1, is
  stopped and removed by that same tick.
\<close>

theorem failing_tick_at_cap_removes_task:
  "fst (always_throws 0) = Threw ''boom''
   \<and> hasTask job failing_capped_once
   \<and> map_of (timers failing_capped_once) 0 = Some (job, Finite 1000)
   \<and> fst (fire 0 failing_capped_once) = None
   \<and> \<not> hasTask job (snd (fire 0 failing_capped_once))
   \<and> timers (snd (fire 0 failing_capped_once)) = []"
  by (simp add: failing_capped_once_eq hasTask_def fire_def tick_def executeTask_def executeTask_begin_def executeTask_resume_def
      always_throws_def increment_def cap_reached_def js_ge_def stop_def AList.delete_eq)

text \<open>
  C3, amended. For every action, however its call ends, and on every run path:
  \<open>executeTask\<close> catches the failure, and neither a timer tick, nor \<open>executeNow\<close>, nor
  \<open>schedule\<close> with \<open>runImmediately\<close> propagates it. A tick and \<open>executeNow\<close> still add 1 to
  \<open>executionCount\<close>. After \<open>executeNow\<close>, and after a tick whose increment does not reach
  \<open>maxExecutions\<close>, the timers are as before and the task is still registered; a tick
  whose increment reaches \<open>maxExecutions\<close> ends with \<open>stop\<close>, whether the action failed or
  not.
\<close>

theorem failures_are_isolated:
  "fst (executeTask f s) = None
   \<and> fst (tick n s) = None
   \<and> fst (fire tid s) = None
   \<and> (\<forall>e. fst (executeNow n s) \<noteq> Inl e)
   \<and> (accepted (Some n) (Function f) ival \<longrightarrow>
         fst (schedule (Some n) (Function f) ival options now s) = Inr ())
   \<and> (\<forall>t. map_of (tasks s) n = Some t \<longrightarrow>
         map_of (tasks (snd (executeNow n s))) n = Some (t\<lparr>executionCount := executionCount t + 1\<rparr>)
         \<and> timers (snd (executeNow n s)) = timers s
         \<and> (\<not> cap_reached (t\<lparr>executionCount := executionCount t + 1\<rparr>) \<longrightarrow>
               map_of (tasks (snd (tick n s))) n = Some (t\<lparr>executionCount := executionCount t + 1\<rparr>)
               \<and> timers (snd (tick n s)) = timers s)
         \<and> (cap_reached (t\<lparr>executionCount := executionCount t + 1\<rparr>) \<longrightarrow>
               snd (tick n s) = snd (stop n (increment n (snd (executeTask (func t) s))))))"
proof -
  have now: "\<forall>e. fst (executeNow n s) \<noteq> Inl e"
    by (cases "map_of (tasks s) n") (simp_all add: executeNow_absent executeNow_present)
  have reg: "map_of (tasks (snd (executeNow n s))) n = Some (t\<lparr>executionCount := executionCount t + 1\<rparr>)
         \<and> timers (snd (executeNow n s)) = timers s
         \<and> (\<not> cap_reached (t\<lparr>executionCount := executionCount t + 1\<rparr>) \<longrightarrow>
               map_of (tasks (snd (tick n s))) n = Some (t\<lparr>executionCount := executionCount t + 1\<rparr>)
               \<and> timers (snd (tick n s)) = timers s)
         \<and> (cap_reached (t\<lparr>executionCount := executionCount t + 1\<rparr>) \<longrightarrow>
               snd (tick n s) = snd (stop n (increment n (snd (executeTask (func t) s)))))"
    if t: "map_of (tasks s) n = Some t" for t
    by (simp add: executeNow_present [OF t] tick_present [OF t] increment_tasks_map
        increment_timers executeTask_tasks executeTask_timers t)
  show ?thesis
    using now reg by (simp add: executeTask_fst tick_fst fire_fst schedule_accepted_fst)
qed

text \<open>
  A throwing action without a cap, fired and run by hand; and the capped one, whose
  tick ends with \<open>stop\<close>.
\<close>

theorem failures_are_isolated_witness:
  "accepted (Some job) (Function always_throws) (Unit Second)
   \<and> map_of (tasks failing_every_second) job =
        Some \<lparr>timerId = 0, func = always_throws, interval = Finite 1000, startTime = 0,
              executionCount = 0, maxExecutions = None\<rparr>
   \<and> \<not> cap_reached \<lparr>timerId = 0, func = always_throws, interval = Finite 1000, startTime = 0,
              executionCount = 1, maxExecutions = None\<rparr>
   \<and> fire 0 failing_every_second =
        (None, failing_every_second
           \<lparr>tasks := [(job, \<lparr>timerId = 0, func = always_throws, interval = Finite 1000,
                               startTime = 0, executionCount = 1, maxExecutions = None\<rparr>)],
            trace := trace failing_every_second @ [Invoked (Threw ''boom''), ConsoleError ''boom''],
            world := 1\<rparr>)
   \<and> fst (executeNow job failing_every_second) = Inr True
   \<and> map_of (tasks failing_capped_once) job =
        Some \<lparr>timerId = 0, func = always_throws, interval = Finite 1000, startTime = 0,
              executionCount = 0, maxExecutions = Some (Finite 1)\<rparr>
   \<and> cap_reached \<lparr>timerId = 0, func = always_throws, interval = Finite 1000, startTime = 0,
              executionCount = 1, maxExecutions = Some (Finite 1)\<rparr>
   \<and> tick job failing_capped_once =
        (None, snd (stop job (increment job (snd (executeTask always_throws failing_capped_once)))))"
proof -
  have acc: "accepted (Some job) (Function always_throws) (Unit Second)"
    by (simp add: accepted_def trim_job_nonempty)
  have t1: "map_of (tasks failing_every_second) job =
        Some \<lparr>timerId = 0, func = always_throws, interval = Finite 1000, startTime = 0,
              executionCount = 0, maxExecutions = None\<rparr>"
    by (simp add: failing_every_second_eq)
  have t2: "map_of (tasks failing_capped_once) job =
        Some \<lparr>timerId = 0, func = always_throws, interval = Finite 1000, startTime = 0,
              executionCount = 0, maxExecutions = Some (Finite 1)\<rparr>"
    by (simp add: failing_capped_once_eq)
  have c1: "\<not> cap_reached \<lparr>timerId = 0, func = always_throws, interval = Finite 1000, startTime = 0,
              executionCount = 1, maxExecutions = None\<rparr>"
    by (simp add: cap_reached_def)
  have c2: "cap_reached \<lparr>timerId = 0, func = always_throws, interval = Finite 1000, startTime = 0,
              executionCount = 1, maxExecutions = Some (Finite 1)\<rparr>"
    by (simp add: cap_reached_def js_ge_def)
  have f: "fire 0 failing_every_second =
        (None, failing_every_second
           \<lparr>tasks := [(job, \<lparr>timerId = 0, func = always_throws, interval = Finite 1000,
                               startTime = 0, executionCount = 1, maxExecutions = None\<rparr>)],
            trace := trace failing_every_second @ [Invoked (Threw ''boom''), ConsoleError ''boom''],
            world := 1\<rparr>)"
    by (simp add: failing_every_second_eq fire_def tick_def executeTask_def executeTask_begin_def executeTask_resume_def
        always_throws_def increment_def cap_reached_def)
  note r1 = failures_are_isolated [of always_throws failing_every_second job 0 "Unit Second"
      no_options 0]
  note r2 = failures_are_isolated [of always_throws failing_capped_once job 0 "Unit Second"
      no_options 0]
  have "fst (executeNow job failing_every_second) = Inr True"
    using r1 by (cases "fst (executeNow job failing_every_second)")
      (auto simp: executeNow_def t1 split: prod.splits option.splits)
  moreover have "tick job failing_capped_once =
        (None, snd (stop job (increment job (snd (executeTask always_throws failing_capped_once)))))"
    using r2 t2 c2 by (simp add: prod_eq_iff)
  ultimately show ?thesis using acc t1 t2 c1 c2 f by simp
qed

text \<open>
  C4. Task names are unique in the registry after every step of every run. When
  \<open>schedule\<close> succeeds for a name that is registered, the prior entry is stopped first
  (\<open>clearInterval\<close> on its handle is the first outside call), and afterwards exactly one
  entry is stored under the name, with the new interval, the new start time, count 0 and a
  fresh timer; the old timer is not armed and never fires again.
\<close>

theorem schedule_replaces:
  assumes "well_formed s"
    and "map_of (tasks s) n = Some t"
    and "fst (schedule (Some n) (Function g) ival options now s) = Inr ()"
  shows "filter (\<lambda>p. fst p = n) (tasks (snd (schedule (Some n) (Function g) ival options now s))) =
        [(n, \<lparr>timerId = nextTimer s, func = g, interval = intervalMs ival, startTime = now,
               executionCount = 0, maxExecutions = optMaxExecutions options\<rparr>)]
    \<and> map_of (timers (snd (schedule (Some n) (Function g) ival options now s))) (timerId t) = None
    \<and> map_of (timers (snd (schedule (Some n) (Function g) ival options now s))) (nextTimer s)
        = Some (n, intervalMs ival)
    \<and> timerId t \<noteq> nextTimer s
    \<and> (\<exists>rest. trace (snd (schedule (Some n) (Function g) ival options now s)) =
          trace s @ ClearInterval (timerId t) # ConsoleLog (Stopped n) # rest)
    \<and> (\<forall>xs. distinct (map fst (tasks (run xs (snd (schedule (Some n) (Function g) ival options now s)))))
          \<and> fire (timerId t) (run xs (snd (schedule (Some n) (Function g) ival options now s)))
              = (None, run xs (snd (schedule (Some n) (Function g) ival options now s))))"
proof -
  let ?s = "snd (schedule (Some n) (Function g) ival options now s)"
  let ?e = "\<lparr>timerId = nextTimer s, func = g, interval = intervalMs ival, startTime = now,
             executionCount = 0, maxExecutions = optMaxExecutions options\<rparr>"
  have acc: "accepted (Some n) (Function g) ival"
    using assms(3) by (rule schedule_ok_accepted)
  have wf': "well_formed ?s" using assms(1) by (rule well_formed_schedule)
  have one: "filter (\<lambda>p. fst p = n) (tasks ?s) = [(n, ?e)]"
    by (simp add: schedule_accepted_tasks [OF acc] filter_key_update_absent map_of_delete_same)
  have armed: "map_of (timers s) (timerId t) = Some (n, interval t)"
    using assms(1,2) by (rule well_formed_armed)
  then have old: "timerId t < nextTimer s"
    using assms(1) by (simp add: well_formed_fresh)
  have released: "map_of (timers ?s) (timerId t) = None"
    using old
    by (simp add: schedule_accepted_timers [OF acc] stop_timers assms(2) map_add_def
        map_of_delete_same)
  have "map_of (tasks ?s) n = Some ?e"
    by (simp add: schedule_accepted_tasks [OF acc] AList.update_conv')
  from well_formed_armed [OF wf' this]
  have new: "map_of (timers ?s) (nextTimer s) = Some (n, intervalMs ival)" by simp
  obtain rest where "trace (snd (immediate g options (snd (stop n s)))) = trace (snd (stop n s)) @ rest"
    using immediate_trace_prefix by blast
  then have tr: "\<exists>rest. trace ?s = trace s @ ClearInterval (timerId t) # ConsoleLog (Stopped n) # rest"
    by (simp add: schedule_accepted_trace [OF acc] stop_trace_present [OF assms(2)])
  have "retired (timerId t) ?s"
    using old released by (simp add: retired_def schedule_accepted_nextTimer [OF acc])
  then have never: "fire (timerId t) (run xs ?s) = (None, run xs ?s)" for xs
    by (rule retired_never_fires)
  have uniq: "distinct (map fst (tasks (run xs ?s)))" for xs
    using wf' by (intro well_formed_tasks well_formed_run)
  show ?thesis using one released new old tr never uniq by simp
qed

text \<open>
  The example task, registered every 1000 ms with handle 0, is registered again at time 42
  with \<open>'minute'\<close>; afterwards the host fires the old handle and the new one.
\<close>

theorem schedule_replaces_witness:
  "well_formed capped_once
   \<and> map_of (tasks capped_once) job =
        Some \<lparr>timerId = 0, func = count_runs, interval = Finite 1000, startTime = 0,
              executionCount = 0, maxExecutions = Some (Finite 1)\<rparr>
   \<and> fst (schedule (Some job) (Function always_throws) (Unit Minute) no_options 42 capped_once)
        = Inr ()
   \<and> tasks (snd (schedule (Some job) (Function always_throws) (Unit Minute) no_options 42
                     capped_once)) =
        [(job, \<lparr>timerId = 1, func = always_throws, interval = Finite 60000, startTime = 42,
                 executionCount = 0, maxExecutions = None\<rparr>)]
   \<and> timers (snd (schedule (Some job) (Function always_throws) (Unit Minute) no_options 42
                      capped_once)) = [(1, job, Finite 60000)]
   \<and> fire 0 (run [Fire 1] (snd (schedule (Some job) (Function always_throws) (Unit Minute)
                                   no_options 42 capped_once)))
        = (None, run [Fire 1] (snd (schedule (Some job) (Function always_throws) (Unit Minute)
                                       no_options 42 capped_once)))"
proof -
  have t: "map_of (tasks capped_once) job =
        Some \<lparr>timerId = 0, func = count_runs, interval = Finite 1000, startTime = 0,
              executionCount = 0, maxExecutions = Some (Finite 1)\<rparr>"
    by (simp add: capped_once_eq)
  have acc: "accepted (Some job) (Function always_throws) (Unit Minute)"
    by (simp add: accepted_def trim_job_nonempty)
  have eq: "snd (schedule (Some job) (Function always_throws) (Unit Minute) no_options 42 capped_once)
      = \<lparr>tasks = [(job, \<lparr>timerId = 1, func = always_throws, interval = Finite 60000,
                          startTime = 42, executionCount = 0, maxExecutions = None\<rparr>)],
         timers = [(1, job, Finite 60000)], nextTimer = 2,
         trace = [SetInterval 0 job (Finite 1000), ConsoleLog (Scheduled job (Finite 1000)),
                  ClearInterval 0, ConsoleLog (Stopped job), SetInterval 1 job (Finite 60000),
                  ConsoleLog (Scheduled job (Finite 60000))],
         world = 0\<rparr>"
    by (simp add: schedule_accepted [OF acc] capped_once_eq stop_def immediate_def executeTask_resume_def no_options_def
        AList.delete_eq)
  show ?thesis
    using schedule_replaces [OF well_formed_capped_once t minute_replaces_ok, THEN conjunct2,
        THEN conjunct2, THEN conjunct2, THEN conjunct2, THEN conjunct2, THEN spec, of "[Fire 1]"]
      well_formed_capped_once t minute_replaces_ok
    by (simp add: eq)
qed

text \<open>
  C5. After a successful \<open>schedule\<close>, \<open>getTask\<close> on the name gives a snapshot with
  \<open>executionCount\<close> 0 and \<open>isActive\<close> true (and the resolved interval and the start time).
  With \<open>runImmediately\<close> the action is called exactly once, and that call is made before
  \<open>setInterval\<close> (a rejection of its promise is caught after \<open>schedule\<close> has returned); the
  stored entry, with its count of 0 and its cap, is the one that the same call without
  \<open>runImmediately\<close> stores. Without \<open>runImmediately\<close> the action is not called.
\<close>

theorem schedule_then_getTask:
  assumes "fst (schedule (Some n) (Function g) ival options now s) = Inr ()"
  shows "getTask n (snd (schedule (Some n) (Function g) ival options now s)) =
        Some \<lparr>name = n, infoInterval = intervalMs ival, infoStartTime = now,
              infoExecutionCount = 0, isActive = True\<rparr>
    \<and> map_of (tasks (snd (schedule (Some n) (Function g) ival options now s))) n =
        Some \<lparr>timerId = nextTimer s, func = g, interval = intervalMs ival, startTime = now,
              executionCount = 0, maxExecutions = optMaxExecutions options\<rparr>
    \<and> tasks (snd (schedule (Some n) (Function g) ival options now s)) =
        tasks (snd (schedule (Some n) (Function g) ival (options\<lparr>runImmediately := None\<rparr>) now s))
    \<and> (runImmediately options = Some True \<longrightarrow>
          invocations (snd (schedule (Some n) (Function g) ival options now s))
            = Suc (invocations s)
          \<and> world (snd (schedule (Some n) (Function g) ival options now s)) = snd (g (world s))
          \<and> trace (snd (schedule (Some n) (Function g) ival options now s)) =
              trace (snd (stop n s)) @ Invoked (fst (g (world s))) #
                (case fst (g (world s)) of Threw e \<Rightarrow> [ConsoleError e] | _ \<Rightarrow> []) @
                [SetInterval (nextTimer s) n (intervalMs ival),
                 ConsoleLog (Scheduled n (intervalMs ival))] @
                (case fst (g (world s)) of Rejected e \<Rightarrow> [ConsoleError e] | _ \<Rightarrow> []))
    \<and> (runImmediately options \<noteq> Some True \<longrightarrow>
          invocations (snd (schedule (Some n) (Function g) ival options now s)) = invocations s
          \<and> world (snd (schedule (Some n) (Function g) ival options now s)) = world s)"
proof -
  have acc: "accepted (Some n) (Function g) ival"
    using assms by (rule schedule_ok_accepted)
  let ?s = "snd (schedule (Some n) (Function g) ival options now s)"
  have entry: "map_of (tasks ?s) n =
      Some \<lparr>timerId = nextTimer s, func = g, interval = intervalMs ival, startTime = now,
            executionCount = 0, maxExecutions = optMaxExecutions options\<rparr>"
    by (simp add: schedule_accepted_tasks [OF acc] AList.update_conv')
  then have info: "getTask n ?s =
      Some \<lparr>name = n, infoInterval = intervalMs ival, infoStartTime = now,
            infoExecutionCount = 0, isActive = True\<rparr>"
    by (simp add: getTask_def)
  have same: "tasks ?s =
      tasks (snd (schedule (Some n) (Function g) ival (options\<lparr>runImmediately := None\<rparr>) now s))"
    by (simp add: schedule_accepted_tasks [OF acc])
  have on: "invocations ?s = Suc (invocations s) \<and> world ?s = snd (g (world s))
      \<and> trace ?s = trace (snd (stop n s)) @ Invoked (fst (g (world s))) #
                (case fst (g (world s)) of Threw e \<Rightarrow> [ConsoleError e] | _ \<Rightarrow> []) @
                [SetInterval (nextTimer s) n (intervalMs ival),
                 ConsoleLog (Scheduled n (intervalMs ival))] @
                (case fst (g (world s)) of Rejected e \<Rightarrow> [ConsoleError e] | _ \<Rightarrow> [])"
    if "runImmediately options = Some True"
    by (simp add: schedule_accepted_invocations [OF acc] schedule_accepted_world [OF acc]
        schedule_accepted_trace [OF acc] immediate_on [OF that] executeTask_begin_invocations
        executeTask_begin_world executeTask_begin_trace executeTask_begin_fst stop_invocations
        stop_world split: completion.splits)
  have off: "invocations ?s = invocations s \<and> world ?s = world s"
    if "runImmediately options \<noteq> Some True"
    by (simp add: schedule_accepted_invocations [OF acc] schedule_accepted_world [OF acc]
        immediate_skip [OF that] stop_invocations stop_world)
  show ?thesis using entry info same on off by simp
qed

text \<open>
  \<open>schedule('job', always_rejects, 500, {runImmediately: true, maxExecutions: 1})\<close> at time
  7, and the same call with only the cap.
\<close>

theorem schedule_then_getTask_witness:
  "fst (schedule (Some job) (Function always_rejects) (Millis (Finite 500)) (immediately_at_most 1) 7
          (new_Scheduler 0)) = Inr ()
   \<and> runImmediately (immediately_at_most 1) = Some True
   \<and> getTask job rejecting_immediately =
        Some \<lparr>name = job, infoInterval = Finite 500, infoStartTime = 7,
              infoExecutionCount = 0, isActive = True\<rparr>
   \<and> world rejecting_immediately = 1
   \<and> trace rejecting_immediately =
        [Invoked (Rejected ''late''), SetInterval 0 job (Finite 500),
         ConsoleLog (Scheduled job (Finite 500)), ConsoleError ''late'']
   \<and> fst (schedule (Some job) (Function always_rejects) (Millis (Finite 500)) (at_most 1) 7
            (new_Scheduler 0)) = Inr ()
   \<and> runImmediately (at_most 1) \<noteq> Some True
   \<and> world (snd (schedule (Some job) (Function always_rejects) (Millis (Finite 500)) (at_most 1) 7
                    (new_Scheduler 0))) = 0"
proof -
  have acc: "accepted (Some job) (Function always_rejects) (Millis (Finite 500))"
    by (simp add: accepted_def trim_job_nonempty)
  have a: "fst (schedule (Some job) (Function always_rejects) (Millis (Finite 500))
                  (immediately_at_most 1) 7 (new_Scheduler 0)) = Inr ()"
    using acc by (rule schedule_accepted_fst)
  have b: "fst (schedule (Some job) (Function always_rejects) (Millis (Finite 500)) (at_most 1) 7
                  (new_Scheduler 0)) = Inr ()"
    using acc by (rule schedule_accepted_fst)
  show ?thesis
    using schedule_then_getTask [OF a] schedule_then_getTask [OF b] a b
    by (simp add: rejecting_immediately_def immediately_at_most_def at_most_def new_Scheduler_def
        always_rejects_def stop_def)
qed

text \<open>
  C6. For a registered name \<open>executeNow\<close> calls the action exactly once, through
  \<open>executeTask\<close>, adds exactly 1 to that entry's \<open>executionCount\<close> and returns true; the
  entry's other fields, the other entries and the timers are as before. For an absent
  name it returns false and changes nothing.
\<close>

theorem executeNow_contract:
  "(\<forall>t. map_of (tasks s) n = Some t \<longrightarrow>
      fst (executeNow n s) = Inr True
      \<and> snd (executeNow n s) = increment n (snd (executeTask (func t) s))
      \<and> map_of (tasks (snd (executeNow n s))) n
          = Some (t\<lparr>executionCount := executionCount t + 1\<rparr>)
      \<and> invocations (snd (executeNow n s)) = invocations s + 1
      \<and> world (snd (executeNow n s)) = snd (func t (world s)))
   \<and> (\<forall>m. m \<noteq> n \<longrightarrow> map_of (tasks (snd (executeNow n s))) m = map_of (tasks s) m)
   \<and> map fst (tasks (snd (executeNow n s))) = map fst (tasks s)
   \<and> timers (snd (executeNow n s)) = timers s
   \<and> nextTimer (snd (executeNow n s)) = nextTimer s
   \<and> (map_of (tasks s) n = None \<longrightarrow> executeNow n s = (Inr False, s))"
proof (cases "map_of (tasks s) n")
  case None
  then show ?thesis by (simp add: executeNow_absent)
next
  case (Some t)
  have eq: "executeNow n s = (Inr True, increment n (snd (executeTask (func t) s)))"
    using Some by (rule executeNow_present)
  show ?thesis
    by (simp add: Some eq increment_tasks_map increment_keys increment_timers increment_nextTimer
        increment_world executeTask_tasks executeTask_timers executeTask_nextTimer
        executeTask_world invocations_def increment_trace
        executeTask_invocations [unfolded invocations_def])
qed

text \<open>\<open>executeNow('job')\<close> on the example, and \<open>executeNow\<close> on a name that is not there.\<close>

theorem executeNow_contract_witness:
  "map_of (tasks capped_once) job =
      Some \<lparr>timerId = 0, func = count_runs, interval = Finite 1000, startTime = 0,
            executionCount = 0, maxExecutions = Some (Finite 1)\<rparr>
   \<and> fst (executeNow job capped_once) = Inr True
   \<and> map_of (tasks (snd (executeNow job capped_once))) job =
      Some \<lparr>timerId = 0, func = count_runs, interval = Finite 1000, startTime = 0,
            executionCount = 1, maxExecutions = Some (Finite 1)\<rparr>
   \<and> timers (snd (executeNow job capped_once)) = [(0, job, Finite 1000)]
   \<and> world (snd (executeNow job capped_once)) = 1
   \<and> map_of (tasks capped_once) (ascii ''other'') = None
   \<and> executeNow (ascii ''other'') capped_once = (Inr False, capped_once)"
proof -
  have t: "map_of (tasks capped_once) job =
      Some \<lparr>timerId = 0, func = count_runs, interval = Finite 1000, startTime = 0,
            executionCount = 0, maxExecutions = Some (Finite 1)\<rparr>"
    by (simp add: capped_once_eq)
  have o: "map_of (tasks capped_once) (ascii ''other'') = None"
    by (simp add: capped_once_eq job_eq ascii_def)
  show ?thesis
    using executeNow_contract [of capped_once job] executeNow_contract [of capped_once "ascii ''other''"]
      t o
    by (simp add: capped_once_eq executeNow_def executeTask_def executeTask_begin_def executeTask_resume_def count_runs_def
        increment_def)
qed

text \<open>
  C7. \<open>stop\<close> returns true exactly when a task is registered under the name. It then
  removes the entry and releases its timer, which never fires again, and leaves the other
  entries and timers as they were. On an absent name it returns false and changes
  nothing, so a second \<open>stop\<close> on the same name returns false. \<open>stop\<close> has no way to
  throw.
\<close>

theorem stop_contract:
  "fst (stop n s) = hasTask n s
   \<and> \<not> hasTask n (snd (stop n s))
   \<and> (\<forall>m. m \<noteq> n \<longrightarrow> map_of (tasks (snd (stop n s))) m = map_of (tasks s) m)
   \<and> (\<forall>t. map_of (tasks s) n = Some t \<longrightarrow>
          map_of (timers (snd (stop n s))) (timerId t) = None
          \<and> (\<forall>tid. tid \<noteq> timerId t \<longrightarrow>
                 map_of (timers (snd (stop n s))) tid = map_of (timers s) tid)
          \<and> (well_formed s \<longrightarrow>
                 (\<forall>xs. fire (timerId t) (run xs (snd (stop n s))) = (None, run xs (snd (stop n s))))))
   \<and> (\<not> hasTask n s \<longrightarrow> stop n s = (False, s))
   \<and> stop n (snd (stop n s)) = (False, snd (stop n s))"
proof (intro conjI allI impI)
  show "fst (stop n s) = hasTask n s" by (rule stop_fst)
  show "\<not> hasTask n (snd (stop n s))" by (rule stop_hasTask)
  then show "stop n (snd (stop n s)) = (False, snd (stop n s))"
    by (simp add: hasTask_def stop_absent)
next
  fix m :: js_string assume "m \<noteq> n"
  then show "map_of (tasks (snd (stop n s))) m = map_of (tasks s) m"
    by (simp add: stop_tasks)
next
  fix t assume t: "map_of (tasks s) n = Some t"
  show released: "map_of (timers (snd (stop n s))) (timerId t) = None"
    by (simp add: stop_timers t map_of_delete_same)
  {
    fix tid assume "tid \<noteq> timerId t"
    then show "map_of (timers (snd (stop n s))) tid = map_of (timers s) tid"
      by (simp add: stop_timers t)
  }
  {
    fix xs assume wf: "well_formed s"
    have "timerId t < nextTimer s"
      using well_formed_fresh [OF wf well_formed_armed [OF wf t]] .
    then have "retired (timerId t) (snd (stop n s))"
      using released by (simp add: retired_def stop_nextTimer)
    then show "fire (timerId t) (run xs (snd (stop n s))) = (None, run xs (snd (stop n s)))"
      by (rule retired_never_fires)
  }
next
  assume "\<not> hasTask n s"
  then show "stop n s = (False, s)" by (simp add: hasTask_def stop_absent)
qed

text \<open>
  \<open>stop('job')\<close> on the example with two tasks, twice, and \<open>stop\<close> on a name that is not
  there.
\<close>

theorem stop_contract_witness:
  "map_of (tasks two_tasks) job =
      Some \<lparr>timerId = 0, func = count_runs, interval = Finite 1000, startTime = 0,
            executionCount = 0, maxExecutions = Some (Finite 1)\<rparr>
   \<and> well_formed two_tasks \<and> ping \<noteq> job \<and> (1::nat) \<noteq> 0
   \<and> fst (stop job two_tasks) = True
   \<and> \<not> hasTask job (snd (stop job two_tasks))
   \<and> map_of (tasks (snd (stop job two_tasks))) ping = map_of (tasks two_tasks) ping
   \<and> map_of (timers (snd (stop job two_tasks))) 0 = None
   \<and> map_of (timers (snd (stop job two_tasks))) 1 = Some (ping, Finite 1000)
   \<and> fire 0 (run [ExecuteNow ping, Fire 1] (snd (stop job two_tasks)))
       = (None, run [ExecuteNow ping, Fire 1] (snd (stop job two_tasks)))
   \<and> stop job (snd (stop job two_tasks)) = (False, snd (stop job two_tasks))
   \<and> \<not> hasTask (ascii ''other'') two_tasks
   \<and> stop (ascii ''other'') two_tasks = (False, two_tasks)"
proof -
  have t: "map_of (tasks two_tasks) job =
      Some \<lparr>timerId = 0, func = count_runs, interval = Finite 1000, startTime = 0,
            executionCount = 0, maxExecutions = Some (Finite 1)\<rparr>"
    by (simp add: two_tasks_eq)
  have o: "\<not> hasTask (ascii ''other'') two_tasks"
    by (simp add: hasTask_def two_tasks_eq job_eq ping_eq ascii_def)
  have ti: "map_of (timers two_tasks) 1 = Some (ping, Finite 1000)"
    by (simp add: two_tasks_eq)
  note r = stop_contract [of job two_tasks]
  from r t well_formed_two_tasks
  have "\<forall>xs. fire (timerId \<lparr>timerId = 0, func = count_runs, interval = Finite 1000,
                          startTime = 0, executionCount = 0, maxExecutions = Some (Finite 1)\<rparr>)
               (run xs (snd (stop job two_tasks))) = (None, run xs (snd (stop job two_tasks)))"
    by blast
  then have "fire 0 (run xs (snd (stop job two_tasks))) = (None, run xs (snd (stop job two_tasks)))"
    for xs by simp
  then have never: "fire 0 (run [ExecuteNow ping, Fire 1] (snd (stop job two_tasks)))
       = (None, run [ExecuteNow ping, Fire 1] (snd (stop job two_tasks)))" .
  from r t
  have "\<forall>tid. tid \<noteq> timerId \<lparr>timerId = 0, func = count_runs, interval = Finite 1000,
                          startTime = 0, executionCount = 0, maxExecutions = Some (Finite 1)\<rparr>
          \<longrightarrow> map_of (timers (snd (stop job two_tasks))) tid = map_of (timers two_tasks) tid"
    by blast
  then have other: "map_of (timers (snd (stop job two_tasks))) 1 = Some (ping, Finite 1000)"
    using ti by simp
  from r t
  have "map_of (timers (snd (stop job two_tasks)))
          (timerId \<lparr>timerId = 0, func = count_runs, interval = Finite 1000,
                          startTime = 0, executionCount = 0, maxExecutions = Some (Finite 1)\<rparr>) = None"
    by blast
  then have gone: "map_of (timers (snd (stop job two_tasks))) 0 = None" by simp
  have yes: "fst (stop job two_tasks) = True"
    using r t by (simp add: hasTask_def)
  have rest: "\<not> hasTask job (snd (stop job two_tasks))
      \<and> map_of (tasks (snd (stop job two_tasks))) ping = map_of (tasks two_tasks) ping
      \<and> stop job (snd (stop job two_tasks)) = (False, snd (stop job two_tasks))"
    using r ping_not_job by blast
  have absent: "stop (ascii ''other'') two_tasks = (False, two_tasks)"
    using stop_contract [of "ascii ''other''" two_tasks] o by blast
  show ?thesis
    using t o well_formed_two_tasks never other gone yes rest absent ping_not_job by simp
qed

text \<open>
  C8. \<open>schedule\<close> throws exactly when the name is missing or empty after trimming, the
  action is not a function, or the resolved interval is falsy or at most zero. Whenever it
  throws, the state after the call is the state before it: no timer is armed, no entry is
  stored. The name is tested first, then the action, then the interval, and the three
  errors differ (by their messages).
\<close>

theorem schedule_validation:
  "((\<exists>e. fst (schedule taskName f ival options now s) = Inl e) =
      ((\<forall>n. taskName = Some n \<longrightarrow> trim n = []) \<or> f = NotAFunction
       \<or> falsy (intervalMs ival) \<or> js_le (intervalMs ival) (Finite 0)))
   \<and> (\<forall>e. fst (schedule taskName f ival options now s) = Inl e \<longrightarrow>
          snd (schedule taskName f ival options now s) = s)
   \<and> ((\<forall>n. taskName = Some n \<longrightarrow> trim n = []) \<longrightarrow>
          fst (schedule taskName f ival options now s) = Inl TaskNameRequired)
   \<and> (\<not> (\<forall>n. taskName = Some n \<longrightarrow> trim n = []) \<and> f = NotAFunction \<longrightarrow>
          fst (schedule taskName f ival options now s) = Inl FunctionRequired)
   \<and> (\<not> (\<forall>n. taskName = Some n \<longrightarrow> trim n = []) \<and> f \<noteq> NotAFunction
        \<and> (falsy (intervalMs ival) \<or> js_le (intervalMs ival) (Finite 0)) \<longrightarrow>
          fst (schedule taskName f ival options now s) = Inl (InvalidInterval ival))
   \<and> TaskNameRequired \<noteq> FunctionRequired \<and> TaskNameRequired \<noteq> InvalidInterval ival
   \<and> FunctionRequired \<noteq> InvalidInterval ival"
proof (intro conjI allI impI)
  show "(\<exists>e. fst (schedule taskName f ival options now s) = Inl e) =
      ((\<forall>n. taskName = Some n \<longrightarrow> trim n = []) \<or> f = NotAFunction
       \<or> falsy (intervalMs ival) \<or> js_le (intervalMs ival) (Finite 0))"
    unfolding schedule_throws_iff accepted_iff by simp
next
  fix e assume "fst (schedule taskName f ival options now s) = Inl e"
  then show "snd (schedule taskName f ival options now s) = s"
    by (rule schedule_throws_unchanged)
next
  assume "\<forall>n. taskName = Some n \<longrightarrow> trim n = []"
  then show "fst (schedule taskName f ival options now s) = Inl TaskNameRequired"
    by (cases taskName) (simp_all add: schedule_def)
next
  assume "\<not> (\<forall>n. taskName = Some n \<longrightarrow> trim n = []) \<and> f = NotAFunction"
  then show "fst (schedule taskName f ival options now s) = Inl FunctionRequired"
    by (cases taskName) (auto simp: schedule_def)
next
  assume "\<not> (\<forall>n. taskName = Some n \<longrightarrow> trim n = []) \<and> f \<noteq> NotAFunction
        \<and> (falsy (intervalMs ival) \<or> js_le (intervalMs ival) (Finite 0))"
  then show "fst (schedule taskName f ival options now s) = Inl (InvalidInterval ival)"
    by (cases taskName; cases f) (auto simp: schedule_def)
qed simp_all

text \<open>Four rejected calls on the example with one task, each with its first failing test.\<close>

theorem schedule_validation_witness:
  "trim (ascii '' '') = [] \<and> trim job \<noteq> [] \<and> falsy (intervalMs (Millis NaN))
   \<and> schedule (Some (ascii '' '')) NotAFunction (Millis NaN) no_options 5 capped_once
       = (Inl TaskNameRequired, capped_once)
   \<and> schedule None NotAFunction (Millis NaN) no_options 5 capped_once
       = (Inl TaskNameRequired, capped_once)
   \<and> schedule (Some job) NotAFunction (Millis NaN) no_options 5 capped_once
       = (Inl FunctionRequired, capped_once)
   \<and> schedule (Some job) (Function count_runs) (Millis NaN) no_options 5 capped_once
       = (Inl (InvalidInterval (Millis NaN)), capped_once)"
  using schedule_validation [of "Some (ascii '' '')" NotAFunction "Millis NaN" no_options 5 capped_once]
    schedule_validation [of None NotAFunction "Millis NaN" no_options 5 capped_once]
    schedule_validation [of "Some job" NotAFunction "Millis NaN" no_options 5 capped_once]
    schedule_validation [of "Some job" "Function count_runs" "Millis NaN" no_options 5 capped_once]
  by (simp add: trim_blank trim_job_nonempty prod_eq_iff)

text \<open>
  C9. \<open>stopAll\<close> returns the number of tasks registered when it is called and removes
  them all. After \<open>destroy\<close>, \<open>taskCount\<close> is 0 and \<open>getActiveTasks\<close> is empty; in a
  well-formed state no timer is left armed, and the timer of a task that was registered
  never fires again, whatever happens later. No action is called.
\<close>

theorem stopAll_destroy:
  "fst (stopAll s) = taskCount s
   \<and> tasks (snd (stopAll s)) = []
   \<and> taskCount (snd (stopAll s)) = 0
   \<and> tasks (destroy s) = tasks (snd (stopAll s))
   \<and> timers (destroy s) = timers (snd (stopAll s))
   \<and> taskCount (destroy s) = 0
   \<and> getActiveTasks (destroy s) = []
   \<and> invocations (destroy s) = invocations s
   \<and> (well_formed s \<longrightarrow>
        timers (destroy s) = []
        \<and> (\<forall>tid. fire tid (destroy s) = (None, destroy s))
        \<and> (\<forall>n t xs. map_of (tasks s) n = Some t \<longrightarrow>
              fire (timerId t) (run xs (destroy s)) = (None, run xs (destroy s))))"
proof -
  have inv: "invocations (destroy s) = invocations s"
    using stop_each_invocations [of "map fst (tasks s)" s]
    by (simp add: destroy_def Let_def stopAll_eq invocations_def is_Invoked_def)
  have wf: "timers (destroy s) = []
        \<and> (\<forall>tid. fire tid (destroy s) = (None, destroy s))
        \<and> (\<forall>n t xs. map_of (tasks s) n = Some t \<longrightarrow>
              fire (timerId t) (run xs (destroy s)) = (None, run xs (destroy s)))"
    if w: "well_formed s"
  proof -
    have none: "timers (destroy s) = []"
      using w by (simp add: destroy_timers stopAll_timers)
    have never: "fire (timerId t) (run xs (destroy s)) = (None, run xs (destroy s))"
      if t: "map_of (tasks s) n = Some t" for n t xs
    proof -
      have "timerId t < nextTimer s"
        using well_formed_fresh [OF w well_formed_armed [OF w t]] .
      then have "retired (timerId t) (destroy s)"
        by (simp add: retired_def none destroy_nextTimer)
      then show ?thesis by (rule retired_never_fires)
    qed
    show ?thesis using none never by (simp add: fire_def)
  qed
  show ?thesis
    using inv wf
    by (simp add: stopAll_eq stop_each_tasks destroy_tasks destroy_timers taskCount_def
        getActiveTasks_def)
qed

text \<open>
  \<open>destroy\<close> on the example with two tasks; afterwards a new task is registered under
  an old name, and the host fires old and new handles.
\<close>

theorem stopAll_destroy_witness:
  "well_formed two_tasks \<and> taskCount two_tasks = 2 \<and> fst (stopAll two_tasks) = 2
   \<and> map_of (tasks two_tasks) ping =
        Some \<lparr>timerId = 1, func = always_rejects, interval = Finite 1000, startTime = 3,
              executionCount = 0, maxExecutions = None\<rparr>
   \<and> tasks (destroy two_tasks) = [] \<and> timers (destroy two_tasks) = []
   \<and> fire 1 (run [Schedule (Some ping) (Function count_runs) (Unit Second) no_options 9, Fire 2]
               (destroy two_tasks))
       = (None, run [Schedule (Some ping) (Function count_runs) (Unit Second) no_options 9, Fire 2]
                  (destroy two_tasks))"
proof -
  have t: "map_of (tasks two_tasks) ping =
        Some \<lparr>timerId = 1, func = always_rejects, interval = Finite 1000, startTime = 3,
              executionCount = 0, maxExecutions = None\<rparr>"
    by (simp add: two_tasks_eq ping_not_job)
  have c: "taskCount two_tasks = 2" by (simp add: two_tasks_eq taskCount_def)
  note r = stopAll_destroy [of two_tasks]
  have "fire (timerId \<lparr>timerId = 1, func = always_rejects, interval = Finite 1000, startTime = 3,
              executionCount = 0, maxExecutions = None\<rparr>)
          (run [Schedule (Some ping) (Function count_runs) (Unit Second) no_options 9, Fire 2]
               (destroy two_tasks))
       = (None, run [Schedule (Some ping) (Function count_runs) (Unit Second) no_options 9, Fire 2]
                  (destroy two_tasks))"
    using r well_formed_two_tasks t by blast
  then show ?thesis
    using r well_formed_two_tasks t c by auto
qed

text \<open>
  C10. When \<open>schedule\<close> throws for a name under which a task is registered, nothing has
  changed: the entry is the same (interval, start time, count, cap and timer handle), its
  timer is still armed and fires as before.
\<close>

theorem failed_replacement_keeps_task:
  assumes "map_of (tasks s) n = Some t"
    and "fst (schedule (Some n) f ival options now s) = Inl e"
  shows "snd (schedule (Some n) f ival options now s) = s
    \<and> map_of (tasks (snd (schedule (Some n) f ival options now s))) n = Some t
    \<and> map_of (timers (snd (schedule (Some n) f ival options now s))) (timerId t)
        = map_of (timers s) (timerId t)
    \<and> fire (timerId t) (snd (schedule (Some n) f ival options now s)) = fire (timerId t) s
    \<and> (well_formed s \<longrightarrow>
          map_of (timers (snd (schedule (Some n) f ival options now s))) (timerId t)
            = Some (n, interval t))"
  using schedule_throws_unchanged [OF assms(2)] assms(1) well_formed_armed [of s n t]
  by simp

text \<open>Replacing the example's task with a zero interval fails and keeps the task.\<close>

theorem failed_replacement_keeps_task_witness:
  "map_of (tasks capped_once) job =
      Some \<lparr>timerId = 0, func = count_runs, interval = Finite 1000, startTime = 0,
            executionCount = 0, maxExecutions = Some (Finite 1)\<rparr>
   \<and> fst (schedule (Some job) (Function always_throws) (Millis (Finite 0)) no_options 7 capped_once)
       = Inl (InvalidInterval (Millis (Finite 0)))
   \<and> well_formed capped_once
   \<and> snd (schedule (Some job) (Function always_throws) (Millis (Finite 0)) no_options 7 capped_once)
       = capped_once
   \<and> map_of (timers (snd (schedule (Some job) (Function always_throws) (Millis (Finite 0))
                            no_options 7 capped_once))) 0
       = Some (job, Finite 1000)"
proof -
  have t: "map_of (tasks capped_once) job =
      Some \<lparr>timerId = 0, func = count_runs, interval = Finite 1000, startTime = 0,
            executionCount = 0, maxExecutions = Some (Finite 1)\<rparr>"
    by (simp add: capped_once_eq)
  have e: "fst (schedule (Some job) (Function always_throws) (Millis (Finite 0)) no_options 7
                  capped_once) = Inl (InvalidInterval (Millis (Finite 0)))"
    by (simp add: schedule_def trim_job_nonempty)
  show ?thesis
    using failed_replacement_keeps_task [OF t e] t e well_formed_capped_once by auto
qed

end
